theory Spec2Isabelle
  imports Complex_Main "HOL-Library.Word"
begin

unbundle bit_operations_syntax

section \<open>Bytes, typed arrays and thrown errors\<close>

text \<open>
  A \<^verbatim>\<open>Uint8Array\<close> or \<^verbatim>\<open>Uint8ClampedArray\<close> is a list of 8-bit words. The
  length of a typed array never changes. A JavaScript \<^verbatim>\<open>Error\<close> is represented by its
  message: every \<^verbatim>\<open>throw\<close> of the source is \<open>Inl message\<close>.
\<close>

type_synonym byte = "8 word"

type_synonym bytes = "byte list"

text \<open>
  An element read that feeds a bitwise operator. Out of range the read gives
  \<^verbatim>\<open>undefined\<close>, which the operator converts to 0.
\<close>

definition elem :: "bytes \<Rightarrow> nat \<Rightarrow> byte" where
  "elem xs i = (if i < length xs then xs ! i else 0)"

text \<open>
  \<^verbatim>\<open>dst.set(src, offset)\<close>: copies \<open>src\<close> into \<open>dst\<close> at \<open>offset\<close>; throws a
  \<^verbatim>\<open>RangeError\<close> when \<open>src\<close> does not fit. The text of that message is the engine's.
\<close>

definition RangeError_message :: string where
  "RangeError_message = ''offset is out of bounds''"

definition typed_array_set :: "bytes \<Rightarrow> bytes \<Rightarrow> nat \<Rightarrow> string + bytes" where
  "typed_array_set dst src offset =
     (if offset + length src > length dst then Inl RangeError_message
      else Inr (take offset dst @ src @ drop (offset + length src) dst))"

text \<open>\<^verbatim>\<open>xs.slice(a, b)\<close> on a typed array, for \<open>a \<le> b\<close>.\<close>

definition slice_bytes :: "bytes \<Rightarrow> nat \<Rightarrow> nat \<Rightarrow> bytes" where
  "slice_bytes xs a b = take (b - a) (drop a xs)"

section \<open>JavaScript strings\<close>

text \<open>
  The JavaScript strings modelled are those whose code units are all below 256; such a
  string is a \<open>string\<close>, one \<open>char\<close> for each code unit, and its \<^verbatim>\<open>length\<close> is the
  length of the list. \<^verbatim>\<open>TextEncoder.encode\<close> gives the UTF-8 bytes: one byte for a
  code unit below 128, two bytes otherwise. \<^verbatim>\<open>toLowerCase\<close> changes the capital
  letters of that range.
\<close>

definition TextEncoder_encode :: "string \<Rightarrow> bytes" where
  "TextEncoder_encode s =
     concat (map (\<lambda>c. let n = (of_char c :: nat)
                        in if n < 128 then [of_nat n]
                           else [of_nat (192 + n div 64), of_nat (128 + n mod 64)]) s)"

definition lower_char :: "char \<Rightarrow> char" where
  "lower_char c =
     (let n = (of_char c :: nat)
      in if (65 \<le> n \<and> n \<le> 90) \<or> (192 \<le> n \<and> n \<le> 222 \<and> n \<noteq> 215)
         then char_of (n + 32) else c)"

definition toLowerCase :: "string \<Rightarrow> string" where
  "toLowerCase s = map lower_char s"

text \<open>\<^verbatim>\<open>s.includes(sub)\<close>: \<open>sub\<close> occurs in \<open>s\<close> as a contiguous substring.\<close>

fun string_includes :: "string \<Rightarrow> string \<Rightarrow> bool" where
  "string_includes [] sub = (sub = [])"
| "string_includes (c # cs) sub = (take (length sub) (c # cs) = sub \<or> string_includes cs sub)"

text \<open>\<^verbatim>\<open>s.startsWith(p)\<close> and \<^verbatim>\<open>s.endsWith(p)\<close>.\<close>

definition startsWith :: "string \<Rightarrow> string \<Rightarrow> bool" where
  "startsWith s p \<longleftrightarrow> take (length p) s = p"

definition endsWith :: "string \<Rightarrow> string \<Rightarrow> bool" where
  "endsWith s p \<longleftrightarrow> length p \<le> length s \<and> drop (length s - length p) s = p"

text \<open>The decimal digits of a number, as a template literal prints it.\<close>

fun decimal :: "nat \<Rightarrow> string" where
  "decimal n =
     (if n < 10 then [char_of (48 + n)]
      else decimal (n div 10) @ [char_of (48 + n mod 10)])"

declare decimal.simps [simp del]

text \<open>\<^verbatim>\<open>xs.join(sep)\<close> on an array of strings.\<close>

fun join :: "string list \<Rightarrow> string \<Rightarrow> string" where
  "join [] sep = []"
| "join [x] sep = x"
| "join (x # y # ys) sep = x @ sep @ join (y # ys) sep"

section \<open>steganography.js\<close>

definition HEADER_SIZE :: nat where "HEADER_SIZE = 4"

definition SALT_SIZE :: nat where "SALT_SIZE = 16"

definition IV_SIZE :: nat where "IV_SIZE = 12"

definition HMAC_SIZE :: nat where "HMAC_SIZE = 32"

definition KEY_SIZE :: nat where "KEY_SIZE = 32"

lemmas stego_sizes = HEADER_SIZE_def SALT_SIZE_def IV_SIZE_def HMAC_SIZE_def KEY_SIZE_def

text \<open>
  \<^verbatim>\<open>numberToBytes(num)\<close>: the shifts work on the 32-bit two's complement value of
  \<open>num\<close>; \<^verbatim>\<open>>>\<close> is the arithmetic shift.
\<close>

definition numberToBytes :: "int \<Rightarrow> bytes" where
  "numberToBytes num =
     (let n = (word_of_int num :: 32 word) in
      [ucast (signed_drop_bit 24 n AND 0xFF),
       ucast (signed_drop_bit 16 n AND 0xFF),
       ucast (signed_drop_bit 8 n AND 0xFF),
       ucast (n AND 0xFF)])"

text \<open>\<^verbatim>\<open>bytesToNumber(bytes)\<close>: the result of \<^verbatim>\<open>|\<close> is a signed 32-bit integer.\<close>

definition bytesToNumber :: "bytes \<Rightarrow> int" where
  "bytesToNumber bs =
     sint ((push_bit 24 (ucast (elem bs 0)) OR push_bit 16 (ucast (elem bs 1))
            OR push_bit 8 (ucast (elem bs 2)) OR ucast (elem bs 3)) :: 32 word)"

subsection \<open>The canvas\<close>

text \<open>
  A canvas is represented by the RGBA bytes that \<^verbatim>\<open>getImageData\<close> reads from it, in
  raster order, four for each pixel. \<^verbatim>\<open>ctx.getImageData(0, 0, canvas.width,
  canvas.height)\<close> throws an \<^verbatim>\<open>IndexSizeError\<close> when the width or the height is 0,
  that is, when the canvas has no pixel (the text of the message is the engine's);
  otherwise it gives a copy of the bytes.
\<close>

definition IndexSizeError_message :: string where
  "IndexSizeError_message = ''The source width is 0.''"

definition getImageData :: "bytes \<Rightarrow> string + bytes" where
  "getImageData canvas =
     (if length canvas = 0 then Inl IndexSizeError_message else Inr canvas)"

text \<open>
  The canvas keeps each pixel with its colour premultiplied by alpha, in 8 bits for each
  channel: \<^verbatim>\<open>putImageData\<close> converts the four bytes of a pixel to that form and a
  later read converts them back. A pixel with alpha 255 comes back as it was put. A
  pixel with alpha 0 comes back as four zero bytes, whatever colour was put. In between,
  colour values are merged, and which ones depends on how the engine rounds; here both
  conversions round down. \<open>putImageData pixels\<close> is the canvas after
  \<^verbatim>\<open>ctx.putImageData(imageData, 0, 0)\<close> with an \<^verbatim>\<open>ImageData\<close> of the size of the
  canvas whose bytes are \<open>pixels\<close>.
\<close>

definition premultiplied :: "byte \<Rightarrow> byte \<Rightarrow> byte" where
  "premultiplied alpha c = of_nat (unat c * unat alpha div 255)"

definition unpremultiplied :: "byte \<Rightarrow> byte \<Rightarrow> byte" where
  "unpremultiplied alpha c =
     (if alpha = 0 then 0 else of_nat (min 255 (unat c * 255 div unat alpha)))"

fun putImageData :: "bytes \<Rightarrow> bytes" where
  "putImageData (r # g # b # a # rest) =
     [unpremultiplied a (premultiplied a r), unpremultiplied a (premultiplied a g),
      unpremultiplied a (premultiplied a b), a] @ putImageData rest"
| "putImageData rest = rest"

subsection \<open>Embedding\<close>

text \<open>
  The inner loop of \<^verbatim>\<open>embedDataInImage\<close> over the channels R, G, B of the pixel at
  byte offset \<open>i\<close>. The loop state is \<open>(pixels, dataIndex, bitIndex)\<close>. \<open>bitIndex\<close>
  stays below 8, so \<open>7 - bitIndex\<close> never truncates.
\<close>

function embed_channels :: "bytes \<Rightarrow> nat \<Rightarrow> nat \<Rightarrow> bytes \<times> nat \<times> nat \<Rightarrow> bytes \<times> nat \<times> nat" where
  "embed_channels dataToEmbed i channel (pixels, dataIndex, bitIndex) =
     (if channel < 3 \<and> dataIndex < length dataToEmbed then
        let pixelIndex = i + channel;
            dataByte = dataToEmbed ! dataIndex;
            bit = drop_bit (7 - bitIndex) dataByte AND 1;
            pixels' = pixels[pixelIndex := (elem pixels pixelIndex AND 0xFE) OR bit]
        in if bitIndex + 1 = 8
           then embed_channels dataToEmbed i (channel + 1) (pixels', dataIndex + 1, 0)
           else embed_channels dataToEmbed i (channel + 1) (pixels', dataIndex, bitIndex + 1)
      else (pixels, dataIndex, bitIndex))"
  by pat_completeness auto
termination
  by (relation "measure (\<lambda>(d, i, channel, s). 3 - channel)") auto
declare embed_channels.simps [simp del]

text \<open>The outer loop over the pixels, \<open>i\<close> advancing by 4 bytes.\<close>

function embed_pixels :: "bytes \<Rightarrow> nat \<Rightarrow> bytes \<times> nat \<times> nat \<Rightarrow> bytes \<times> nat \<times> nat" where
  "embed_pixels dataToEmbed i (pixels, dataIndex, bitIndex) =
     (if i < length pixels \<and> dataIndex < length dataToEmbed
      then embed_pixels dataToEmbed (i + 4)
             (embed_channels dataToEmbed i 0 (pixels, dataIndex, bitIndex))
      else (pixels, dataIndex, bitIndex))"
  by pat_completeness auto
termination
proof -
  have len: "length (fst (embed_channels d i c s)) = length (fst s)" for d i c s
  proof (induction d i c s rule: embed_channels.induct)
    case (1 d i c px di bi)
    show ?case
      using "1.IH" by (subst embed_channels.simps) (simp add: Let_def)
  qed
  show ?thesis
    by (relation "measure (\<lambda>(d, i, s). length (fst s) - i)") (auto simp: len)
qed
declare embed_pixels.simps [simp del]

text \<open>
  The bytes \<^verbatim>\<open>dataToEmbed\<close> that \<^verbatim>\<open>embedDataInImage\<close> assembles:
  \<^verbatim>\<open>[length][salt][iv][key][hmac]\<close>, each part written with \<^verbatim>\<open>set\<close>.
\<close>

definition assemble_dataToEmbed :: "bytes \<Rightarrow> bytes \<Rightarrow> bytes \<Rightarrow> bytes \<Rightarrow> string + bytes" where
  "assemble_dataToEmbed salt iv hmac keyBytes =
     (let totalDataSize = SALT_SIZE + IV_SIZE + KEY_SIZE + HMAC_SIZE;
          dataToEmbed = replicate (HEADER_SIZE + totalDataSize) 0
      in case typed_array_set dataToEmbed (numberToBytes (int totalDataSize)) 0 of
           Inl e \<Rightarrow> Inl e
         | Inr d1 \<Rightarrow>
        (case typed_array_set d1 salt HEADER_SIZE of
           Inl e \<Rightarrow> Inl e
         | Inr d2 \<Rightarrow>
        (case typed_array_set d2 iv (HEADER_SIZE + SALT_SIZE) of
           Inl e \<Rightarrow> Inl e
         | Inr d3 \<Rightarrow>
        (case typed_array_set d3 keyBytes (HEADER_SIZE + SALT_SIZE + IV_SIZE) of
           Inl e \<Rightarrow> Inl e
         | Inr d4 \<Rightarrow>
           typed_array_set d4 hmac (HEADER_SIZE + SALT_SIZE + IV_SIZE + KEY_SIZE)))))"

text \<open>
  The capacity test of \<^verbatim>\<open>embedDataInImage\<close>. Both sides are JavaScript numbers, so
  the divisions are not rounded: \<^verbatim>\<open>dataToEmbed.length * 8 / 3 > pixels.length / 4\<close>.
  (\<open>dataToEmbed\<close> always has 96 bytes, for which the quotient is 256 exactly.)
\<close>

definition too_small :: "bytes \<Rightarrow> bytes \<Rightarrow> bool" where
  "too_small dataToEmbed pixels =
     (let requiredPixels = (rat_of_nat (length dataToEmbed) * 8 / 3);
          availablePixels = (rat_of_nat (length pixels) / 4)
      in requiredPixels > availablePixels)"

text \<open>
  One run of \<^verbatim>\<open>embedDataInImage(canvas, salt, iv, hmac, keyBytes)\<close>.
  \<^verbatim>\<open>getImageData\<close> gives the function a copy of the bytes of the canvas, \<open>pixels\<close>,
  which the loops mutate; \<^verbatim>\<open>putImageData\<close> writes the copy back. The run records
  what was thrown (if anything), the copy as the function left it (empty when
  \<^verbatim>\<open>getImageData\<close> threw and there is no copy), and the canvas afterwards.
\<close>

record embed_run =
  thrown :: "string option"
  pixels_after :: bytes
  canvas_after :: bytes

definition embedDataInImage :: "bytes \<Rightarrow> bytes \<Rightarrow> bytes \<Rightarrow> bytes \<Rightarrow> bytes \<Rightarrow> embed_run" where
  "embedDataInImage canvas salt iv hmac keyBytes =
     (case getImageData canvas of
        Inl e \<Rightarrow>
          \<lparr>thrown = Some (''Failed to embed data in image: '' @ e),
           pixels_after = [], canvas_after = canvas\<rparr>
      | Inr pixels \<Rightarrow>
     (case assemble_dataToEmbed salt iv hmac keyBytes of
        Inl e \<Rightarrow>
          \<lparr>thrown = Some (''Failed to embed data in image: '' @ e),
           pixels_after = pixels, canvas_after = canvas\<rparr>
      | Inr dataToEmbed \<Rightarrow>
          if too_small dataToEmbed pixels then
            \<lparr>thrown = Some (''Failed to embed data in image: ''
                            @ ''Image is too small to embed the encryption data''),
             pixels_after = pixels, canvas_after = canvas\<rparr>
          else
            let pixels' = fst (embed_pixels dataToEmbed 0 (pixels, 0, 0))
            in \<lparr>thrown = None, pixels_after = pixels',
                canvas_after = putImageData pixels'\<rparr>))"

text \<open>\<^verbatim>\<open>validateImageCapacity(width, height)\<close>; \<^verbatim>\<open>Math.ceil\<close> of the quotient.\<close>

definition validateImageCapacity :: "nat \<Rightarrow> nat \<Rightarrow> bool" where
  "validateImageCapacity width height =
     (let totalPixels = width * height;
          totalDataSize = HEADER_SIZE + SALT_SIZE + IV_SIZE + KEY_SIZE + HMAC_SIZE;
          requiredPixels = nat \<lceil>rat_of_nat (totalDataSize * 8) / 3\<rceil>
      in totalPixels \<ge> requiredPixels)"

text \<open>\<open>minPixels\<close> of \<^verbatim>\<open>getRequiredImageSize()\<close>.\<close>

definition minPixels :: nat where
  "minPixels =
     (let totalDataSize = HEADER_SIZE + SALT_SIZE + IV_SIZE + KEY_SIZE + HMAC_SIZE
      in nat \<lceil>rat_of_nat (totalDataSize * 8) / 3\<rceil>)"

subsection \<open>Extraction\<close>

text \<open>
  The inner loop of \<^verbatim>\<open>extractDataFromImage\<close>; the loop state is
  \<open>(allBytes, dataIndex, bitIndex)\<close>.
\<close>

function extract_channels :: "bytes \<Rightarrow> nat \<Rightarrow> nat \<Rightarrow> nat \<Rightarrow> bytes \<times> nat \<times> nat \<Rightarrow> bytes \<times> nat \<times> nat" where
  "extract_channels pixels totalBytes i channel (allBytes, dataIndex, bitIndex) =
     (if channel < 3 \<and> dataIndex < totalBytes then
        let pixelIndex = i + channel;
            bit = elem pixels pixelIndex AND 1;
            allBytes' = allBytes[dataIndex := elem allBytes dataIndex OR push_bit (7 - bitIndex) bit]
        in if bitIndex + 1 = 8
           then extract_channels pixels totalBytes i (channel + 1) (allBytes', dataIndex + 1, 0)
           else extract_channels pixels totalBytes i (channel + 1) (allBytes', dataIndex, bitIndex + 1)
      else (allBytes, dataIndex, bitIndex))"
  by pat_completeness auto
termination
  by (relation "measure (\<lambda>(p, t, i, channel, s). 3 - channel)") auto
declare extract_channels.simps [simp del]

function extract_pixels :: "bytes \<Rightarrow> nat \<Rightarrow> nat \<Rightarrow> bytes \<times> nat \<times> nat \<Rightarrow> bytes \<times> nat \<times> nat" where
  "extract_pixels pixels totalBytes i (allBytes, dataIndex, bitIndex) =
     (if i < length pixels \<and> dataIndex < totalBytes
      then extract_pixels pixels totalBytes (i + 4)
             (extract_channels pixels totalBytes i 0 (allBytes, dataIndex, bitIndex))
      else (allBytes, dataIndex, bitIndex))"
  by pat_completeness auto
termination
  by (relation "measure (\<lambda>(p, t, i, s). length p - i)") auto
declare extract_pixels.simps [simp del]

text \<open>
  The object \<^verbatim>\<open>{ salt, iv, keyBytes, hmac }\<close> that extraction returns (the field
  names carry a prefix here).
\<close>

record extracted =
  ex_salt :: bytes
  ex_iv :: bytes
  ex_keyBytes :: bytes
  ex_hmac :: bytes

text \<open>
  The bytes \<^verbatim>\<open>allBytes\<close> that \<^verbatim>\<open>extractDataFromImage\<close> reads off the canvas.
  Extraction starts from the bytes that \<^verbatim>\<open>getImageData\<close> gave, so it is modelled for
  a canvas with at least one pixel, as the canvas of an image that loaded is.
\<close>

definition read_allBytes :: "bytes \<Rightarrow> bytes" where
  "read_allBytes canvas =
     (let pixels = canvas;
          expectedDataLength = SALT_SIZE + IV_SIZE + KEY_SIZE + HMAC_SIZE;
          totalBytes = HEADER_SIZE + expectedDataLength;
          allBytes = replicate totalBytes 0
      in fst (extract_pixels pixels totalBytes 0 (allBytes, 0, 0)))"

definition extractDataFromImage :: "bytes \<Rightarrow> string + extracted" where
  "extractDataFromImage canvas =
     (let expectedDataLength = SALT_SIZE + IV_SIZE + KEY_SIZE + HMAC_SIZE;
          allBytes = read_allBytes canvas;
          dataLength = bytesToNumber (slice_bytes allBytes 0 HEADER_SIZE)
      in if dataLength \<noteq> int expectedDataLength then
           Inl (''Failed to extract data from image: ''
                @ ''Invalid data length - image may not contain valid encryption data'')
         else
           Inr \<lparr>ex_salt = slice_bytes allBytes HEADER_SIZE (HEADER_SIZE + SALT_SIZE),
                ex_iv = slice_bytes allBytes (HEADER_SIZE + SALT_SIZE) (HEADER_SIZE + SALT_SIZE + IV_SIZE),
                ex_keyBytes = slice_bytes allBytes (HEADER_SIZE + SALT_SIZE + IV_SIZE)
                             (HEADER_SIZE + SALT_SIZE + IV_SIZE + KEY_SIZE),
                ex_hmac = slice_bytes allBytes (HEADER_SIZE + SALT_SIZE + IV_SIZE + KEY_SIZE)
                         (HEADER_SIZE + SALT_SIZE + IV_SIZE + KEY_SIZE + HMAC_SIZE)\<rparr>)"

section \<open>validation.js\<close>

text \<open>
  The object \<^verbatim>\<open>{ valid, error, warning }\<close> of the single validators and the object
  \<^verbatim>\<open>{ valid, errors }\<close> of the combined ones.
\<close>

record validation =
  valid :: bool
  error :: "string option"
  warning :: "string option"

record validations =
  all_valid :: bool
  errors :: "string list"

text \<open>A \<^verbatim>\<open>File\<close>: its name, its MIME type and its bytes; \<^verbatim>\<open>file.size\<close> is the number of bytes.\<close>

record js_file =
  file_name :: string
  file_type :: string
  file_data :: bytes

definition file_size :: "js_file \<Rightarrow> nat" where
  "file_size f = length (file_data f)"

text \<open>The character class \<^verbatim>\<open>\d\<close> of a regular expression without the unicode flag.\<close>

definition is_digit :: "char \<Rightarrow> bool" where
  "is_digit c \<longleftrightarrow> c \<in> set ''0123456789''"

definition weakPatterns :: "string list" where
  "weakPatterns =
     [''000000'', ''111111'', ''222222'', ''333333'', ''444444'',
      ''555555'', ''666666'', ''777777'', ''888888'', ''999999'',
      ''123456'', ''654321'', ''012345'', ''543210'',
      ''111222'', ''222333'', ''333444'']"

text \<open>
  \<^verbatim>\<open>validatePIN(pin)\<close>. The pin is a string (what \<^verbatim>\<open>ui.getPIN\<close> returns), so the
  branch for \<^verbatim>\<open>typeof pin !== 'string'\<close> is never taken; \<^verbatim>\<open>!pin\<close> holds for the
  empty string.
\<close>

definition validatePIN :: "string \<Rightarrow> validation" where
  "validatePIN pin =
     (if pin = [] then
        \<lparr>valid = False, error = Some ''PIN is required'', warning = None\<rparr>
      else if length pin \<noteq> 6 then
        \<lparr>valid = False, error = Some ''PIN must be exactly 6 digits'', warning = None\<rparr>
      else if \<not> (length pin = 6 \<and> list_all is_digit pin) then
        \<lparr>valid = False, error = Some ''PIN must contain only numbers'', warning = None\<rparr>
      else if pin \<in> set weakPatterns then
        \<lparr>valid = True, error = None,
         warning = Some ''This PIN is weak. Consider using a more random combination.''\<rparr>
      else \<lparr>valid = True, error = None, warning = None\<rparr>)"

definition validateEncryptionFile :: "js_file option \<Rightarrow> validation" where
  "validateEncryptionFile file =
     (case file of
        None \<Rightarrow> \<lparr>valid = False, error = Some ''No file selected'', warning = None\<rparr>
      | Some f \<Rightarrow>
          if file_size f = 0 then
            \<lparr>valid = False, error = Some ''File is empty'', warning = None\<rparr>
          else
            let maxSize = 1024 * 1024 * 1024 in
            if file_size f > maxSize then
              \<lparr>valid = False,
               error = Some ''File is too large. Maximum size is 1GB (1.0GB)'', warning = None\<rparr>
            else \<lparr>valid = True, error = None, warning = None\<rparr>)"

definition validateEncryptedFile :: "js_file option \<Rightarrow> validation" where
  "validateEncryptedFile file =
     (case file of
        None \<Rightarrow> \<lparr>valid = False, error = Some ''No encrypted file selected'', warning = None\<rparr>
      | Some f \<Rightarrow>
          if file_size f = 0 then
            \<lparr>valid = False, error = Some ''Encrypted file is empty'', warning = None\<rparr>
          else if \<not> endsWith (file_name f) ''.encrypted'' \<and> file_type f = [] then
            \<lparr>valid = True, error = None,
             warning = Some ''File does not have .encrypted extension. Make sure this is the correct encrypted file.''\<rparr>
          else \<lparr>valid = True, error = None, warning = None\<rparr>)"

definition validateKeyImage :: "js_file option \<Rightarrow> validation" where
  "validateKeyImage file =
     (case file of
        None \<Rightarrow> \<lparr>valid = False, error = Some ''No key image selected'', warning = None\<rparr>
      | Some f \<Rightarrow>
          if file_size f = 0 then
            \<lparr>valid = False, error = Some ''Key image is empty'', warning = None\<rparr>
          else if \<not> startsWith (file_type f) ''image/'' then
            \<lparr>valid = False, error = Some ''Selected file is not an image'', warning = None\<rparr>
          else if file_type f \<noteq> ''image/png'' then
            \<lparr>valid = False,
             error = Some ''Key image must be PNG format. JPEG and other formats will not work.'',
             warning = None\<rparr>
          else
            let minSize = 1200 * 1200 * 4 in
            if rat_of_nat (file_size f) < rat_of_nat minSize / 10 then
              \<lparr>valid = True, error = None,
               warning = Some ''Image seems small. Make sure this is the correct key image.''\<rparr>
            else \<lparr>valid = True, error = None, warning = None\<rparr>)"

text \<open>\<^verbatim>\<open>errors.push(v.error)\<close> when \<open>v\<close> is not valid.\<close>

definition push_error :: "validation \<Rightarrow> string list \<Rightarrow> string list" where
  "push_error v errs =
     (if \<not> valid v then errs @ [case error v of Some e \<Rightarrow> e | None \<Rightarrow> ''undefined''] else errs)"

definition validateDecryptionInputs :: "js_file option \<Rightarrow> js_file option \<Rightarrow> string \<Rightarrow> validations" where
  "validateDecryptionInputs encryptedFile keyImage pin =
     (let errs = push_error (validatePIN pin)
                   (push_error (validateKeyImage keyImage)
                      (push_error (validateEncryptedFile encryptedFile) []))
      in \<lparr>all_valid = (length errs = 0), errors = errs\<rparr>)"

definition validateEncryptionInputs :: "js_file option \<Rightarrow> string \<Rightarrow> validations" where
  "validateEncryptionInputs file pin =
     (let errs = push_error (validatePIN pin) (push_error (validateEncryptionFile file) [])
      in \<lparr>all_valid = (length errs = 0), errors = errs\<rparr>)"

definition formatValidationErrors :: "string list \<Rightarrow> string" where
  "formatValidationErrors errs =
     (if length errs = 0 then []
      else if length errs = 1 then errs ! 0
      else ''Multiple errors:'' @ [CHR 0x0A]
           @ join (map (\<lambda>(i, err). decimal (i + 1) @ ''. '' @ err) (enumerate 0 errs)) [CHR 0x0A])"

section \<open>crypto.js\<close>

definition PBKDF2_ITERATIONS :: nat where "PBKDF2_ITERATIONS = 100000"

definition SALT_LENGTH :: nat where "SALT_LENGTH = 16"

definition IV_LENGTH :: nat where "IV_LENGTH = 12"

definition KEY_LENGTH :: nat where "KEY_LENGTH = 256"

datatype algorithm = PBKDF2 | AES_GCM | HMAC

datatype hash_name = SHA_256

text \<open>
  \<^verbatim>\<open>crypto.subtle\<close> belongs to the browser, so the operations the code calls are
  parameters of the model. A \<^verbatim>\<open>CryptoKey\<close> is represented by its raw key material
  (each key of the code is made from raw bytes or is extractable). An operation gives
  \<open>None\<close> when its promise rejects. The arguments follow the calls of the source:
  \<^item> \<open>pbkdf2_deriveKey password salt iterations hash length\<close>,
  \<^item> \<open>aes_gcm_encrypt key iv tagLength data\<close> and \<open>aes_gcm_decrypt key iv tagLength data\<close>,
  \<^item> \<open>hmac_sign key hash data\<close> and \<open>hmac_verify key hash signature data\<close>.
  \<^verbatim>\<open>importKey\<close> and \<^verbatim>\<open>exportKey\<close> in the raw format only wrap and unwrap the key
  material; they are recorded as calls and do not fail.
\<close>

record subtle =
  pbkdf2_deriveKey :: "bytes \<Rightarrow> bytes \<Rightarrow> nat \<Rightarrow> hash_name \<Rightarrow> nat \<Rightarrow> bytes option"
  aes_gcm_encrypt :: "bytes \<Rightarrow> bytes \<Rightarrow> nat \<Rightarrow> bytes \<Rightarrow> bytes option"
  aes_gcm_decrypt :: "bytes \<Rightarrow> bytes \<Rightarrow> nat \<Rightarrow> bytes \<Rightarrow> bytes option"
  hmac_sign :: "bytes \<Rightarrow> hash_name \<Rightarrow> bytes \<Rightarrow> bytes option"
  hmac_verify :: "bytes \<Rightarrow> hash_name \<Rightarrow> bytes \<Rightarrow> bytes \<Rightarrow> bool option"

text \<open>
  The calls made on \<^verbatim>\<open>crypto.subtle\<close>, in order. Every function of the module returns
  the calls it made together with its result or the message of the error it threw.
\<close>

datatype call =
    ImportKey algorithm bytes
  | DeriveKey bytes bytes nat hash_name nat
  | ExportKey bytes
  | Encrypt bytes bytes nat bytes
  | Decrypt bytes bytes nat bytes
  | Sign bytes hash_name bytes
  | Verify bytes hash_name bytes bytes

definition deriveKeyFromPIN :: "subtle \<Rightarrow> string \<Rightarrow> bytes \<Rightarrow> call list \<times> (string + bytes)" where
  "deriveKeyFromPIN S pin salt =
     (let pinBuffer = TextEncoder_encode pin;
          cs = [ImportKey PBKDF2 pinBuffer,
                DeriveKey pinBuffer salt PBKDF2_ITERATIONS SHA_256 KEY_LENGTH]
      in case pbkdf2_deriveKey S pinBuffer salt PBKDF2_ITERATIONS SHA_256 KEY_LENGTH of
           None \<Rightarrow> (cs, Inl ''Failed to derive encryption key from PIN'')
         | Some derivedKey \<Rightarrow> (cs, Inr derivedKey))"

definition exportKey :: "subtle \<Rightarrow> bytes \<Rightarrow> call list \<times> (string + bytes)" where
  "exportKey S key = ([ExportKey key], Inr key)"

definition encryptData :: "subtle \<Rightarrow> bytes \<Rightarrow> bytes \<Rightarrow> bytes \<Rightarrow> call list \<times> (string + bytes)" where
  "encryptData S data key iv =
     ([Encrypt key iv 128 data],
      case aes_gcm_encrypt S key iv 128 data of
        None \<Rightarrow> Inl ''Failed to encrypt data''
      | Some encrypted \<Rightarrow> Inr encrypted)"

definition decryptData :: "subtle \<Rightarrow> bytes \<Rightarrow> bytes \<Rightarrow> bytes \<Rightarrow> call list \<times> (string + bytes)" where
  "decryptData S encryptedData key iv =
     ([Decrypt key iv 128 encryptedData],
      case aes_gcm_decrypt S key iv 128 encryptedData of
        None \<Rightarrow> Inl ''Decryption failed - incorrect PIN or corrupted data''
      | Some decrypted \<Rightarrow> Inr decrypted)"

definition computeHMAC :: "subtle \<Rightarrow> bytes \<Rightarrow> bytes \<Rightarrow> call list \<times> (string + bytes)" where
  "computeHMAC S data key =
     (let exportedKey = key;
          hmacKey = exportedKey
      in ([ExportKey key, ImportKey HMAC exportedKey, Sign hmacKey SHA_256 data],
          case hmac_sign S hmacKey SHA_256 data of
            None \<Rightarrow> Inl ''Failed to compute HMAC''
          | Some signature \<Rightarrow> Inr signature))"

text \<open>\<^verbatim>\<open>verifyHMAC\<close> catches every error and answers \<^verbatim>\<open>false\<close>.\<close>

definition verifyHMAC :: "subtle \<Rightarrow> bytes \<Rightarrow> bytes \<Rightarrow> bytes \<Rightarrow> call list \<times> bool" where
  "verifyHMAC S data signature key =
     (let exportedKey = key;
          hmacKey = exportedKey
      in ([ExportKey key, ImportKey HMAC exportedKey, Verify hmacKey SHA_256 signature data],
          case hmac_verify S hmacKey SHA_256 signature data of
            None \<Rightarrow> False
          | Some isValid \<Rightarrow> isValid))"

text \<open>
  The object \<^verbatim>\<open>{ encrypted, salt, iv, key, hmac }\<close> that \<^verbatim>\<open>encryptFile\<close> returns (field
  names with a prefix).
\<close>

record encrypt_result =
  encrypted :: bytes
  enc_salt :: bytes
  enc_iv :: bytes
  enc_key :: bytes
  enc_hmac :: bytes

text \<open>
  \<^verbatim>\<open>encryptFile(file, pin)\<close>. The two arrays that \<^verbatim>\<open>generateRandomBytes\<close> returns are
  the arguments \<open>salt\<close> and \<open>iv\<close>; \<open>fileData\<close> is the content of the file. The progress
  callback has no part in the result and is left out.
\<close>

definition encryptFile :: "subtle \<Rightarrow> bytes \<Rightarrow> bytes \<Rightarrow> bytes \<Rightarrow> string \<Rightarrow> call list \<times> (string + encrypt_result)" where
  "encryptFile S salt iv fileData pin =
     (case deriveKeyFromPIN S pin salt of
        (c1, Inl e) \<Rightarrow> (c1, Inl (''Failed to encrypt file: '' @ e))
      | (c1, Inr key) \<Rightarrow>
     (case encryptData S fileData key iv of
        (c2, Inl e) \<Rightarrow> (c1 @ c2, Inl (''Failed to encrypt file: '' @ e))
      | (c2, Inr encryptedData) \<Rightarrow>
     (case computeHMAC S encryptedData key of
        (c3, Inl e) \<Rightarrow> (c1 @ c2 @ c3, Inl (''Failed to encrypt file: '' @ e))
      | (c3, Inr hmac) \<Rightarrow>
          (c1 @ c2 @ c3,
           Inr \<lparr>encrypted = encryptedData, enc_salt = salt, enc_iv = iv,
                enc_key = key, enc_hmac = hmac\<rparr>))))"

text \<open>
  \<^verbatim>\<open>decryptFile(encryptedBlob, pin, salt, iv, expectedHMAC, progressCallback)\<close>. The
  whole body is inside one \<^verbatim>\<open>try\<close>, and every error caught there is thrown again behind
  the prefix ``Failed to decrypt file: ''. Three kinds of step can throw: the calls into
  the module, the read \<^verbatim>\<open>encryptedBlob.arrayBuffer()\<close>, and the progress callback.
  \<open>arrayBuffer\<close> is what the read gives: the bytes of the blob, or the message of the
  error it rejects with. \<open>progressCallback\<close> is \<open>None\<close> for \<^verbatim>\<open>null\<close>; otherwise it
  tells, for each percentage it is called with, whether the call returns (\<open>None\<close>) or
  throws (the message of what it throws). \<open>notify\<close> is
  \<^verbatim>\<open>progressCallback?.(percent)\<close>.
\<close>

definition notify :: "(nat \<Rightarrow> string option) option \<Rightarrow> nat \<Rightarrow> string option" where
  "notify progressCallback percent =
     (case progressCallback of None \<Rightarrow> None | Some callback \<Rightarrow> callback percent)"

definition decryptFile_io ::
  "subtle \<Rightarrow> (string + bytes) \<Rightarrow> string \<Rightarrow> bytes \<Rightarrow> bytes \<Rightarrow> bytes
     \<Rightarrow> (nat \<Rightarrow> string option) option \<Rightarrow> call list \<times> (string + bytes)" where
  "decryptFile_io S arrayBuffer pin salt iv expectedHMAC progressCallback =
     (let rethrow = (\<lambda>cs e. (cs, Inl (''Failed to decrypt file: '' @ e))) in
      case notify progressCallback 5 of Some e \<Rightarrow> rethrow [] e | None \<Rightarrow>
     (case deriveKeyFromPIN S pin salt of
        (c1, Inl e) \<Rightarrow> rethrow c1 e
      | (c1, Inr key) \<Rightarrow>
     (case notify progressCallback 15 of Some e \<Rightarrow> rethrow c1 e | None \<Rightarrow>
     (case arrayBuffer of
        Inl e \<Rightarrow> rethrow c1 e
      | Inr encryptedData \<Rightarrow>
     (case notify progressCallback 30 of Some e \<Rightarrow> rethrow c1 e | None \<Rightarrow>
     (case verifyHMAC S encryptedData expectedHMAC key of
        (c2, isValid) \<Rightarrow>
          if \<not> isValid then
            rethrow (c1 @ c2) ''HMAC verification failed - data may be corrupted''
          else
     (case notify progressCallback 50 of Some e \<Rightarrow> rethrow (c1 @ c2) e | None \<Rightarrow>
     (case decryptData S encryptedData key iv of
        (c3, Inl e) \<Rightarrow> rethrow (c1 @ c2 @ c3) e
      | (c3, Inr decryptedData) \<Rightarrow>
     (case notify progressCallback 90 of Some e \<Rightarrow> rethrow (c1 @ c2 @ c3) e | None \<Rightarrow>
     (case notify progressCallback 100 of Some e \<Rightarrow> rethrow (c1 @ c2 @ c3) e | None \<Rightarrow>
        (c1 @ c2 @ c3, Inr decryptedData)))))))))))"

text \<open>
  The call \<^verbatim>\<open>decryptFile(encryptedBlob, pin, salt, iv, expectedHMAC)\<close> on a blob whose
  bytes are at hand (such as the blob that \<^verbatim>\<open>encryptFile\<close> made), without a progress
  callback.
\<close>

definition decryptFile :: "subtle \<Rightarrow> bytes \<Rightarrow> string \<Rightarrow> bytes \<Rightarrow> bytes \<Rightarrow> bytes \<Rightarrow> call list \<times> (string + bytes)" where
  "decryptFile S encryptedBlob pin salt iv expectedHMAC =
     decryptFile_io S (Inr encryptedBlob) pin salt iv expectedHMAC None"

text \<open>\<^verbatim>\<open>clearSensitiveData(data)\<close> on a \<^verbatim>\<open>Uint8Array\<close>: the array after \<^verbatim>\<open>fill(0)\<close>.\<close>

definition clearSensitiveData :: "bytes \<Rightarrow> bytes" where
  "clearSensitiveData data = replicate (length data) 0"

definition getCryptoErrorMessage :: "string \<Rightarrow> string" where
  "getCryptoErrorMessage error_message =
     (let message = toLowerCase error_message
      in if string_includes message ''secure context'' then
           ''This app requires HTTPS. Please access via https:// or localhost''
         else if string_includes message ''not supported'' then
           ''Your browser does not support the required encryption features''
         else if string_includes message ''decrypt'' then
           ''Decryption failed - incorrect PIN or corrupted files''
         else if string_includes message ''hmac'' then
           ''File integrity check failed - the file may have been tampered with''
         else ''An encryption error occurred. Please try again.'')"

section \<open>app.js: the two handlers\<close>

text \<open>
  What one run of a handler leaves behind: the calls made on \<^verbatim>\<open>crypto.subtle\<close>, the
  message of the error that the handler caught and wrote to the console (if any), the
  text it showed in the error modal (if any), the contents at exit of the key buffer it
  held (the exported key in \<^verbatim>\<open>handleEncrypt\<close>, \<^verbatim>\<open>extractedData.keyBytes\<close> in
  \<^verbatim>\<open>handleDecrypt\<close>; \<open>None\<close> when the run never obtained it), and what it produced.
  Progress display, announcements, button states and file names are left out. A handler
  that passed the validation has its files, so the branches for a missing file are never
  taken; they stand for the error of reading a property of \<^verbatim>\<open>null\<close>.
\<close>

record 'a handler_run =
  calls :: "call list"
  caught :: "string option"
  error_modal :: "string option"
  keyBytes_at_exit :: "bytes option"
  produced :: "'a option"

text \<open>The \<^verbatim>\<open>catch\<close> block of both handlers.\<close>

definition catch_block :: "call list \<Rightarrow> string \<Rightarrow> bytes option \<Rightarrow> 'a handler_run" where
  "catch_block cs error_message kb =
     \<lparr>calls = cs, caught = Some error_message,
      error_modal = Some (getCryptoErrorMessage error_message),
      keyBytes_at_exit = kb, produced = None\<rparr>"

text \<open>
  \<^verbatim>\<open>handleEncrypt\<close>. The selected file and the pin come from the form, \<open>salt\<close> and \<open>iv\<close>
  from the random generator; \<open>generated\<close> is what \<^verbatim>\<open>imageGen.generateAbstractImage()\<close>
  gives (a canvas or an error) and \<open>toBlob\<close> is the PNG encoder behind
  \<^verbatim>\<open>stego.canvasToBlob\<close>. A run that succeeds stores the encrypted bytes and the image.
\<close>

definition handleEncrypt ::
  "subtle \<Rightarrow> (string + bytes) \<Rightarrow> (bytes \<Rightarrow> string + bytes) \<Rightarrow> bytes \<Rightarrow> bytes
     \<Rightarrow> js_file option \<Rightarrow> string \<Rightarrow> (bytes \<times> bytes) handler_run" where
  "handleEncrypt S generated toBlob salt iv file pin =
     (let inputValidation = validateEncryptionInputs file pin in
      if \<not> all_valid inputValidation then
        catch_block [] (formatValidationErrors (errors inputValidation)) None
      else case file of
        None \<Rightarrow> catch_block [] ''Cannot read properties of null'' None
      | Some f \<Rightarrow>
     (case encryptFile S salt iv (file_data f) pin of
        (c1, Inl e) \<Rightarrow> catch_block c1 e None
      | (c1, Inr encryptResult) \<Rightarrow>
     (case generated of
        Inl e \<Rightarrow> catch_block c1 e None
      | Inr canvas \<Rightarrow>
     (case exportKey S (enc_key encryptResult) of
        (c2, Inl e) \<Rightarrow> catch_block (c1 @ c2) e None
      | (c2, Inr keyBytes) \<Rightarrow>
          let run = embedDataInImage canvas (enc_salt encryptResult) (enc_iv encryptResult)
                      (enc_hmac encryptResult) keyBytes
          in case thrown run of
               Some e \<Rightarrow> catch_block (c1 @ c2) e (Some keyBytes)
             | None \<Rightarrow>
            (case toBlob (canvas_after run) of
               Inl e \<Rightarrow> catch_block (c1 @ c2) e (Some keyBytes)
             | Inr imageBlob \<Rightarrow>
                 \<lparr>calls = c1 @ c2, caught = None, error_modal = None,
                  keyBytes_at_exit = Some (clearSensitiveData keyBytes),
                  produced = Some (encrypted encryptResult, imageBlob)\<rparr>)))))"

text \<open>
  \<^verbatim>\<open>handleDecrypt\<close>. \<open>loadImage\<close> is the image decoder behind
  \<^verbatim>\<open>stego.loadImageToCanvas\<close> (a canvas or an error). The bytes of the selected file
  are at hand and the progress display is left out, so \<open>decryptFile\<close> is called as
  above. A run that succeeds hands the decrypted bytes to the download.
\<close>

definition handleDecrypt ::
  "subtle \<Rightarrow> (js_file \<Rightarrow> string + bytes) \<Rightarrow> js_file option \<Rightarrow> js_file option \<Rightarrow> string
     \<Rightarrow> bytes handler_run" where
  "handleDecrypt S loadImage encryptedFile keyImage pin =
     (let inputValidation = validateDecryptionInputs encryptedFile keyImage pin in
      if \<not> all_valid inputValidation then
        catch_block [] (formatValidationErrors (errors inputValidation)) None
      else case (encryptedFile, keyImage) of
        (Some ef, Some ki) \<Rightarrow>
          (case loadImage ki of
             Inl e \<Rightarrow> catch_block [] e None
           | Inr canvas \<Rightarrow>
          (case extractDataFromImage canvas of
             Inl e \<Rightarrow> catch_block [] e None
           | Inr extractedData \<Rightarrow>
          (case decryptFile S (file_data ef) pin (ex_salt extractedData) (ex_iv extractedData)
                  (ex_hmac extractedData) of
             (c1, Inl e) \<Rightarrow> catch_block c1 e (Some (ex_keyBytes extractedData))
           | (c1, Inr decryptedBlob) \<Rightarrow>
               \<lparr>calls = c1, caught = None, error_modal = None,
                keyBytes_at_exit = Some (clearSensitiveData (ex_keyBytes extractedData)),
                produced = Some decryptedBlob\<rparr>)))
      | _ \<Rightarrow> catch_block [] ''Cannot read properties of null'' None)"

section \<open>Notions used in the statements\<close>

subsection \<open>The bit stream of the codec\<close>

text \<open>
  Bit number \<open>k\<close> of the payload is taken from byte \<open>k div 8\<close>, most significant bit
  first (\<open>payload_bit\<close>), and is carried by the byte at offset \<open>channel_index k\<close> of the
  RGBA buffer: pixel \<open>k div 3\<close> in raster order, channel \<open>k mod 3\<close> of R, G, B.
  \<open>bit_number\<close> is the inverse on the colour bytes, and \<open>carries_bit len j\<close> says that
  byte \<open>j\<close> of the buffer carries a bit of a payload of \<open>len\<close> bytes.
\<close>

definition payload_bit :: "bytes \<Rightarrow> nat \<Rightarrow> byte" where
  "payload_bit dataToEmbed k = drop_bit (7 - k mod 8) (dataToEmbed ! (k div 8)) AND 1"

definition channel_index :: "nat \<Rightarrow> nat" where
  "channel_index k = 4 * (k div 3) + k mod 3"

definition bit_number :: "nat \<Rightarrow> nat" where
  "bit_number j = 3 * (j div 4) + j mod 4"

definition carries_bit :: "nat \<Rightarrow> nat \<Rightarrow> bool" where
  "carries_bit len j \<longleftrightarrow> j mod 4 < 3 \<and> bit_number j < 8 * len"

subsection \<open>Big-endian integers\<close>

text \<open>
  The value of a byte string read as an unsigned big-endian integer: the notion the
  description of the header uses, against which \<open>numberToBytes\<close> and
  \<open>bytesToNumber\<close> are compared.
\<close>

definition big_endian_value :: "bytes \<Rightarrow> nat" where
  "big_endian_value bs = foldl (\<lambda>acc b. 256 * acc + unat b) 0 bs"

subsection \<open>Web Crypto\<close>

text \<open>
  What the pipeline expects of Web Crypto on the parameters it uses: PBKDF2 returns a key
  of the requested length, AES-GCM decryption inverts encryption under the same key and
  iv, and HMAC verification accepts the signature that signing produced.
\<close>

definition webcrypto_laws :: "subtle \<Rightarrow> bool" where
  "webcrypto_laws S \<longleftrightarrow>
     (\<forall>password salt. length salt = SALT_LENGTH \<longrightarrow>
        (\<exists>key. pbkdf2_deriveKey S password salt PBKDF2_ITERATIONS SHA_256 KEY_LENGTH = Some key
               \<and> 8 * length key = KEY_LENGTH))
   \<and> (\<forall>key iv data. 8 * length key = KEY_LENGTH \<and> length iv = IV_LENGTH \<longrightarrow>
        (\<exists>c. aes_gcm_encrypt S key iv 128 data = Some c
             \<and> aes_gcm_decrypt S key iv 128 c = Some data))
   \<and> (\<forall>key data. 8 * length key = KEY_LENGTH \<longrightarrow>
        (\<exists>s. hmac_sign S key SHA_256 data = Some s
             \<and> hmac_verify S key SHA_256 s data = Some True))"

text \<open>
  A small stand-in for \<^verbatim>\<open>crypto.subtle\<close> on which concrete runs can be computed: the
  ``key'' is cut from password and salt, the ``tag'' from iv and key, the ``mac'' from key
  and data. It satisfies the laws above and has no cryptographic strength.
\<close>

definition example_subtle :: subtle where
  "example_subtle =
     \<lparr>pbkdf2_deriveKey = (\<lambda>password salt iterations hash len.
        Some (take (len div 8) (password @ salt @ replicate (len div 8) 0))),
      aes_gcm_encrypt = (\<lambda>key iv tagLength data.
        Some (data @ take (tagLength div 8) (iv @ key @ replicate (tagLength div 8) 0))),
      aes_gcm_decrypt = (\<lambda>key iv tagLength data.
        let t = tagLength div 8 in
        if t \<le> length data
           \<and> drop (length data - t) data = take t (iv @ key @ replicate t 0)
        then Some (take (length data - t) data) else None),
      hmac_sign = (\<lambda>key hash data.
        Some (take 32 (take 16 key @ data @ replicate 32 0))),
      hmac_verify = (\<lambda>key hash signature data.
        Some (signature = take 32 (take 16 key @ data @ replicate 32 0)))\<rparr>"

subsection \<open>Concrete runs\<close>

text \<open>
  One concrete encryption on the stand-in: the file \<open>[1, 2, 3]\<close> under the pin
  \<open>123456\<close>, and the key that the pin \<open>654321\<close> gives with the same salt.
\<close>

definition example_salt :: bytes where "example_salt = replicate 16 7"

definition example_iv :: bytes where "example_iv = replicate 12 9"

definition example_key :: bytes where
  "example_key = [49, 50, 51, 52, 53, 54] @ replicate 16 7 @ replicate 10 0"

definition example_wrong_key :: bytes where
  "example_wrong_key = [54, 53, 52, 51, 50, 49] @ replicate 16 7 @ replicate 10 0"

definition example_ciphertext :: bytes where
  "example_ciphertext = [1, 2, 3] @ replicate 12 9 @ [49, 50, 51, 52]"

definition example_mac :: bytes where
  "example_mac = [49, 50, 51, 52, 53, 54] @ replicate 10 7 @ [1, 2, 3] @ replicate 12 9 @ [49]"

lemmas example_defs = example_salt_def example_iv_def example_key_def example_wrong_key_def
  example_ciphertext_def example_mac_def

definition example_wrong_iv :: bytes where "example_wrong_iv = replicate 12 8"

text \<open>
  Concrete inputs of \<open>handleDecrypt\<close>: the encrypted file of the example, a key image
  whose canvas carries the example's payload on an opaque white cover of 256 pixels, and
  one whose canvas carries the payload with another iv.
\<close>

definition example_encrypted_file :: js_file where
  "example_encrypted_file =
     \<lparr>file_name = ''notes.txt.encrypted'', file_type = [], file_data = example_ciphertext\<rparr>"

definition example_key_image :: js_file where
  "example_key_image =
     \<lparr>file_name = ''key-image.png'', file_type = ''image/png'', file_data = [137, 80, 78, 71]\<rparr>"

definition example_cover :: bytes where
  "example_cover = replicate (4 * 256) 255"

definition example_canvas :: bytes where
  "example_canvas =
     canvas_after (embedDataInImage example_cover
       example_salt example_iv example_mac example_key)"

definition example_canvas_wrong_iv :: bytes where
  "example_canvas_wrong_iv =
     canvas_after (embedDataInImage example_cover
       example_salt example_wrong_iv example_mac example_key)"

text \<open>The image decoders that give these canvases, and a PNG encoder that succeeds.\<close>

definition example_loadImage :: "js_file \<Rightarrow> string + bytes" where
  "example_loadImage f = Inr example_canvas"

definition example_loadImage_wrong_iv :: "js_file \<Rightarrow> string + bytes" where
  "example_loadImage_wrong_iv f = Inr example_canvas_wrong_iv"

definition example_toBlob :: "bytes \<Rightarrow> string + bytes" where
  "example_toBlob canvas = Inr canvas"

definition example_toBlob_failing :: "bytes \<Rightarrow> string + bytes" where
  "example_toBlob_failing canvas = Inl ''Failed to create blob from canvas''"

definition example_file :: js_file where
  "example_file = \<lparr>file_name = ''notes.txt'', file_type = ''text/plain'', file_data = [1, 2, 3]\<rparr>"

text \<open>
  The first 256 pixels of a cover as \<^verbatim>\<open>generateWavePattern\<close> leaves it. That generator
  sets the pixels at even \<open>x\<close> and \<open>y\<close> of a fresh \<^verbatim>\<open>ImageData\<close> to a colour of the
  palette with alpha 255 and puts the whole \<^verbatim>\<open>ImageData\<close> on the canvas, so in row 0
  every second pixel is opaque and the others are transparent black. With it, the canvas
  after embedding the example's payload, and the image decoder that gives that canvas.
\<close>

definition example_wave_cover :: bytes where
  "example_wave_cover = concat (replicate 128 [255, 0, 110, 255, 0, 0, 0, 0])"

definition example_wave_canvas :: bytes where
  "example_wave_canvas =
     canvas_after (embedDataInImage example_wave_cover
       example_salt example_iv example_mac example_key)"

definition example_loadImage_wave :: "js_file \<Rightarrow> string + bytes" where
  "example_loadImage_wave f = Inr example_wave_canvas"

section \<open>The loops of the codec in closed form\<close>

lemma embed_channels_step:
  "embed_channels d i c (px, k div 8, k mod 8) =
     (if c < 3 \<and> k < 8 * length d
      then embed_channels d i (c + 1)
             (px[i + c := (elem px (i + c) AND 0xFE) OR payload_bit d k], Suc k div 8, Suc k mod 8)
      else (px, k div 8, k mod 8))"
proof -
  have a: "k div 8 < length d \<longleftrightarrow> k < 8 * length d" by (simp add: div_less_iff_less_mult mult.commute)
  show ?thesis
    by (subst embed_channels.simps) (simp add: Let_def payload_bit_def a mod_Suc div_Suc)
qed

lemma embed_channels_closed:
  assumes "c \<le> 3"
  shows "\<exists>px'. embed_channels d i c (px, k div 8, k mod 8)
           = (px', (k + min (3 - c) (8 * length d - k)) div 8, (k + min (3 - c) (8 * length d - k)) mod 8)
         \<and> length px' = length px
         \<and> (\<forall>j < length px. px' ! j =
              (if i + c \<le> j \<and> j < i + c + min (3 - c) (8 * length d - k)
               then (px ! j AND 0xFE) OR payload_bit d (k + (j - (i + c)))
               else px ! j))"
  using assms
proof (induction "3 - c" arbitrary: c px k)
  case 0
  then have "c = 3" by simp
  then show ?case by (subst embed_channels_step) auto
next
  case (Suc m)
  then have c: "c < 3" by simp
  show ?case
  proof (cases "k < 8 * length d")
    case False
    then show ?thesis by (subst embed_channels_step) auto
  next
    case True
    let ?px1 = "px[i + c := (elem px (i + c) AND 0xFE) OR payload_bit d k]"
    from Suc.hyps(2) c have m: "m = 3 - (c + 1)" "c + 1 \<le> 3" by simp_all
    from Suc.hyps(1)[OF m, of ?px1 "Suc k"] obtain px' where
      1: "embed_channels d i (c + 1) (?px1, Suc k div 8, Suc k mod 8)
           = (px', (Suc k + min (3 - (c + 1)) (8 * length d - Suc k)) div 8,
                   (Suc k + min (3 - (c + 1)) (8 * length d - Suc k)) mod 8)"
      and 2: "length px' = length ?px1"
      and 3: "\<forall>j < length ?px1. px' ! j =
              (if i + (c + 1) \<le> j \<and> j < i + (c + 1) + min (3 - (c + 1)) (8 * length d - Suc k)
               then (?px1 ! j AND 0xFE) OR payload_bit d (Suc k + (j - (i + (c + 1))))
               else ?px1 ! j)"
      by blast
    have n: "Suc k + min (3 - (c + 1)) (8 * length d - Suc k) = k + min (3 - c) (8 * length d - k)"
      using True c by arith
    have "embed_channels d i c (px, k div 8, k mod 8)
           = (px', (k + min (3 - c) (8 * length d - k)) div 8, (k + min (3 - c) (8 * length d - k)) mod 8)"
      using True c 1[unfolded n] by (subst embed_channels_step) simp
    moreover have "length px' = length px" using 2 by simp
    moreover have "\<forall>j < length px. px' ! j =
              (if i + c \<le> j \<and> j < i + c + min (3 - c) (8 * length d - k)
               then (px ! j AND 0xFE) OR payload_bit d (k + (j - (i + c)))
               else px ! j)"
    proof (intro allI impI)
      fix j assume j: "j < length px"
      then have 4: "px' ! j =
              (if i + (c + 1) \<le> j \<and> j < i + (c + 1) + min (3 - (c + 1)) (8 * length d - Suc k)
               then (?px1 ! j AND 0xFE) OR payload_bit d (Suc k + (j - (i + (c + 1))))
               else ?px1 ! j)" using 3 by simp
      show "px' ! j =
              (if i + c \<le> j \<and> j < i + c + min (3 - c) (8 * length d - k)
               then (px ! j AND 0xFE) OR payload_bit d (k + (j - (i + c)))
               else px ! j)"
      proof (cases "j = i + c")
        case True
        then show ?thesis using 4 j \<open>k < 8 * length d\<close> c by (simp add: elem_def)
      next
        case False
        then have "?px1 ! j = px ! j" by simp
        moreover have "i + (c + 1) \<le> j \<Longrightarrow> Suc k + (j - (i + (c + 1))) = k + (j - (i + c))" by simp
        ultimately show ?thesis using 4 j \<open>k < 8 * length d\<close> c False
          by (auto simp: min_def split: if_splits)
      qed
    qed
    ultimately show ?thesis by blast
  qed
qed

lemma embed_pixels_closed:
  assumes "k = 3 * p \<or> (8 * length d \<le> k \<and> 8 * length d \<le> 3 * p)"
  shows "\<exists>px' di bi. embed_pixels d (4 * p) (px, k div 8, k mod 8) = (px', di, bi)
         \<and> length px' = length px
         \<and> (\<forall>j < length px. px' ! j =
              (if 4 * p \<le> j \<and> carries_bit (length d) j
               then (px ! j AND 0xFE) OR payload_bit d (bit_number j)
               else px ! j))"
  using assms
proof (induction "length px - 4 * p" arbitrary: p px k rule: less_induct)
  case less
  show ?case
  proof (cases "4 * p < length px \<and> k < 8 * length d")
    case False
    have a: "k div 8 < length d \<longleftrightarrow> k < 8 * length d"
      by (simp add: div_less_iff_less_mult mult.commute)
    have "embed_pixels d (4 * p) (px, k div 8, k mod 8) = (px, k div 8, k mod 8)"
      using False by (subst embed_pixels.simps) (auto simp: a)
    moreover have "\<not> (4 * p \<le> j \<and> carries_bit (length d) j)" if "j < length px" for j
    proof
      assume h: "4 * p \<le> j \<and> carries_bit (length d) j"
      then have "p \<le> j div 4" by arith
      then have "3 * p \<le> bit_number j" by (simp add: bit_number_def)
      moreover have "bit_number j < 8 * length d" using h by (simp add: carries_bit_def)
      ultimately show False using False that h less.prems by linarith
    qed
    ultimately show ?thesis by auto
  next
    case True
    then have k: "k = 3 * p" using less.prems by linarith
    define n where "n = min 3 (8 * length d - k)"
    have a: "k div 8 < length d \<longleftrightarrow> k < 8 * length d"
      by (simp add: div_less_iff_less_mult mult.commute)
    obtain px1 where
      e1: "embed_channels d (4 * p) 0 (px, k div 8, k mod 8) = (px1, (k + n) div 8, (k + n) mod 8)"
      and e2: "length px1 = length px"
      and e3: "\<forall>j < length px. px1 ! j =
              (if 4 * p \<le> j \<and> j < 4 * p + n
               then (px ! j AND 0xFE) OR payload_bit d (k + (j - 4 * p))
               else px ! j)"
      using embed_channels_closed[of 0 d "4 * p" px k] unfolding n_def by auto
    have step: "embed_pixels d (4 * p) (px, k div 8, k mod 8)
                 = embed_pixels d (4 * (p + 1)) (px1, (k + n) div 8, (k + n) mod 8)"
      using True e1 by (subst embed_pixels.simps) (simp add: a add.commute)
    have pre: "k + n = 3 * (p + 1) \<or> (8 * length d \<le> k + n \<and> 8 * length d \<le> 3 * (p + 1))"
      using True k unfolding n_def by (auto simp: min_def)
    have "length px1 - 4 * (p + 1) < length px - 4 * p" using True e2 by arith
    from less.hyps[OF this pre] obtain px' di bi where
      r4: "embed_pixels d (4 * (p + 1)) (px1, (k + n) div 8, (k + n) mod 8) = (px', di, bi)"
      and r5: "length px' = length px1"
      and r6: "\<forall>j < length px1. px' ! j =
              (if 4 * (p + 1) \<le> j \<and> carries_bit (length d) j
               then (px1 ! j AND 0xFE) OR payload_bit d (bit_number j)
               else px1 ! j)"
      by blast
    have "px' ! j = (if 4 * p \<le> j \<and> carries_bit (length d) j
               then (px ! j AND 0xFE) OR payload_bit d (bit_number j)
               else px ! j)" if j: "j < length px" for j
    proof -
      have nle: "n \<le> 3" by (simp add: n_def)
      note px1 = e3[rule_format, OF j]
      have px': "px' ! j =
              (if 4 * (p + 1) \<le> j \<and> carries_bit (length d) j
               then (px1 ! j AND 0xFE) OR payload_bit d (bit_number j)
               else px1 ! j)"
        using r6 e2 j by simp
      consider "j < 4 * p" | "4 * (p + 1) \<le> j" | "4 * p \<le> j" "j < 4 * p + 4" by fastforce
      then show ?thesis
      proof cases
        case 1
        then have "px1 ! j = px ! j" "\<not> 4 * (p + 1) \<le> j" "\<not> 4 * p \<le> j"
          using px1 by simp_all
        then show ?thesis using px' by simp
      next
        case 2
        then have "\<not> j < 4 * p + n" "4 * p \<le> j" using nle by simp_all
        then have "px1 ! j = px ! j" using px1 by simp
        then show ?thesis using px' 2 \<open>4 * p \<le> j\<close> by simp
      next
        case 3
        then have dm: "j div 4 = p" "j mod 4 = j - 4 * p" by presburger+
        then have bn: "bit_number j = k + (j - 4 * p)" by (simp add: bit_number_def k)
        have cb: "carries_bit (length d) j \<longleftrightarrow> j < 4 * p + n"
          using 3 True unfolding carries_bit_def bn n_def dm k by (auto simp: min_def)
        have "\<not> 4 * (p + 1) \<le> j" using 3 by simp
        then have "px' ! j = px1 ! j" using px' by simp
        then show ?thesis using px1 3 cb bn by simp
      qed
    qed
    then show ?thesis using step r4 r5 e2 by simp
  qed
qed

lemma extract_channels_step:
  "extract_channels q T i c (ab, k div 8, k mod 8) =
     (if c < 3 \<and> k < 8 * T
      then extract_channels q T i (c + 1)
             (ab[k div 8 := elem ab (k div 8) OR push_bit (7 - k mod 8) (elem q (i + c) AND 1)],
              Suc k div 8, Suc k mod 8)
      else (ab, k div 8, k mod 8))"
proof -
  have a: "k div 8 < T \<longleftrightarrow> k < 8 * T" by (simp add: div_less_iff_less_mult mult.commute)
  show ?thesis
    by (subst extract_channels.simps) (simp add: Let_def a mod_Suc div_Suc)
qed

lemma bit_or_single:
  fixes x y :: byte
  assumes "s < 8"
  shows "bit (x OR push_bit s (y AND 1)) b \<longleftrightarrow> bit x b \<or> (b = s \<and> bit y 0)"
  using assms by (auto simp: bit_simps bit_1_iff)

lemma bit_position_iff: fixes b m k :: nat assumes "b < 8" shows "8 * m + (7 - b) = k \<longleftrightarrow> m = k div 8 \<and> b = 7 - k mod 8"
proof
  assume h: "8 * m + (7 - b) = k"
  define r where "r = 7 - b"
  have r: "r < 8" "b = 7 - r" using assms by (simp_all add: r_def)
  have k: "k = 8 * m + r" using h by (simp add: r_def)
  have "k div 8 = m" "k mod 8 = r" using r(1) by (simp_all add: k)
  then show "m = k div 8 \<and> b = 7 - k mod 8" using r(2) by simp
next
  assume h: "m = k div 8 \<and> b = 7 - k mod 8"
  have "k mod 8 < 8" by simp
  then have "7 - (7 - k mod 8) = k mod 8" by linarith
  then show "8 * m + (7 - b) = k" using h by simp
qed

lemma extract_bit_update:
  assumes "length ab = T" "k < 8 * T" "m < T" "b < 8"
  shows "bit (ab[k div 8 := elem ab (k div 8) OR push_bit (7 - k mod 8) (y AND 1)] ! m) b
         \<longleftrightarrow> bit (ab ! m) b \<or> (8 * m + (7 - b) = k \<and> bit y 0)"
proof -
  have kd: "k div 8 < T" using assms(2) by (simp add: div_less_iff_less_mult mult.commute)
  note pos = bit_position_iff[OF assms(4), of m k]
  show ?thesis
  proof (cases "m = k div 8")
    case True
    have e: "elem ab (k div 8) = ab ! (k div 8)" using kd assms(1) by (simp add: elem_def)
    have n: "ab[k div 8 := v] ! (k div 8) = v" for v using kd assms(1) by simp
    have s: "7 - k mod 8 < 8" by simp
    have "bit (ab[k div 8 := ab ! (k div 8) OR push_bit (7 - k mod 8) (y AND 1)] ! (k div 8)) b
          \<longleftrightarrow> bit (ab ! (k div 8)) b \<or> (b = 7 - k mod 8 \<and> bit y 0)"
      unfolding n bit_or_single[OF s] ..
    then show ?thesis using pos True by (simp add: e)
  next
    case False
    then show ?thesis using pos by simp
  qed
qed

lemma extract_channels_closed:
  assumes "c \<le> 3" "length ab = T"
  shows "\<exists>ab'. extract_channels q T i c (ab, k div 8, k mod 8)
           = (ab', (k + min (3 - c) (8 * T - k)) div 8, (k + min (3 - c) (8 * T - k)) mod 8)
         \<and> length ab' = T
         \<and> (\<forall>m < T. \<forall>b < 8. bit (ab' ! m) b \<longleftrightarrow>
               bit (ab ! m) b
               \<or> (k \<le> 8 * m + (7 - b) \<and> 8 * m + (7 - b) < k + min (3 - c) (8 * T - k)
                  \<and> bit (elem q (i + c + (8 * m + (7 - b) - k))) 0))"
  using assms
proof (induction "3 - c" arbitrary: c ab k)
  case 0
  then have "c = 3" by simp
  then show ?case using "0.prems" by (subst extract_channels_step) auto
next
  case (Suc n)
  then have c: "c < 3" by simp
  show ?case
  proof (cases "k < 8 * T")
    case False
    then show ?thesis using Suc.prems by (subst extract_channels_step) auto
  next
    case True
    let ?ab1 = "ab[k div 8 := elem ab (k div 8) OR push_bit (7 - k mod 8) (elem q (i + c) AND 1)]"
    from Suc.hyps(2) c have n: "n = 3 - (c + 1)" "c + 1 \<le> 3" by simp_all
    have l1: "length ?ab1 = T" using Suc.prems by simp
    have nn: "Suc k + min (3 - (c + 1)) (8 * T - Suc k) = k + min (3 - c) (8 * T - k)"
      using True c by arith
    from Suc.hyps(1)[OF n l1, of "Suc k"] obtain ab' where
      e1: "extract_channels q T i (c + 1) (?ab1, Suc k div 8, Suc k mod 8)
           = (ab', (Suc k + min (3 - (c + 1)) (8 * T - Suc k)) div 8,
                   (Suc k + min (3 - (c + 1)) (8 * T - Suc k)) mod 8)"
      and e2: "length ab' = T"
      and e3: "\<forall>m < T. \<forall>b < 8. bit (ab' ! m) b \<longleftrightarrow>
               bit (?ab1 ! m) b
               \<or> (Suc k \<le> 8 * m + (7 - b)
                  \<and> 8 * m + (7 - b) < Suc k + min (3 - (c + 1)) (8 * T - Suc k)
                  \<and> bit (elem q (i + (c + 1) + (8 * m + (7 - b) - Suc k))) 0)"
      by blast
    have "extract_channels q T i c (ab, k div 8, k mod 8)
           = (ab', (k + min (3 - c) (8 * T - k)) div 8, (k + min (3 - c) (8 * T - k)) mod 8)"
      using True c e1[unfolded nn] by (subst extract_channels_step) simp
    moreover have "bit (ab' ! m) b \<longleftrightarrow>
               bit (ab ! m) b
               \<or> (k \<le> 8 * m + (7 - b) \<and> 8 * m + (7 - b) < k + min (3 - c) (8 * T - k)
                  \<and> bit (elem q (i + c + (8 * m + (7 - b) - k))) 0)"
      if m: "m < T" and b: "b < 8" for m b
    proof -
      define pos where "pos = 8 * m + (7 - b)"
      have r: "bit (ab' ! m) b \<longleftrightarrow>
               bit (?ab1 ! m) b
               \<or> (Suc k \<le> pos \<and> pos < k + min (3 - c) (8 * T - k)
                  \<and> bit (elem q (i + (c + 1) + (pos - Suc k))) 0)"
        using e3[rule_format, OF m b] unfolding nn pos_def .
      have u: "bit (?ab1 ! m) b \<longleftrightarrow> bit (ab ! m) b \<or> (pos = k \<and> bit (elem q (i + c)) 0)"
        using extract_bit_update[OF Suc.prems(2) True m b] unfolding pos_def .
      have idx: "Suc k \<le> pos \<Longrightarrow> i + (c + 1) + (pos - Suc k) = i + c + (pos - k)" by simp
      have here: "pos = k \<Longrightarrow> pos < k + min (3 - c) (8 * T - k)" using True c by simp
      show ?thesis
        unfolding pos_def[symmetric] r u using idx here
        by (cases "pos = k"; cases "Suc k \<le> pos") auto
    qed
    ultimately show ?thesis using e2 by blast
  qed
qed

lemma extract_pixels_closed:
  assumes "k = 3 * p \<or> (8 * T \<le> k \<and> 8 * T \<le> 3 * p)" "length ab = T"
  shows "\<exists>ab' di bi. extract_pixels q T (4 * p) (ab, k div 8, k mod 8) = (ab', di, bi)
         \<and> length ab' = T
         \<and> (\<forall>m < T. \<forall>b < 8. bit (ab' ! m) b \<longleftrightarrow>
               bit (ab ! m) b
               \<or> (3 * p \<le> 8 * m + (7 - b) \<and> bit (elem q (channel_index (8 * m + (7 - b)))) 0))"
  using assms
proof (induction "length q - 4 * p" arbitrary: p ab k rule: less_induct)
  case less
  have a: "k div 8 < T \<longleftrightarrow> k < 8 * T"
    by (simp add: div_less_iff_less_mult mult.commute)
  show ?case
  proof (cases "4 * p < length q \<and> k < 8 * T")
    case False
    have "extract_pixels q T (4 * p) (ab, k div 8, k mod 8) = (ab, k div 8, k mod 8)"
      using False by (subst extract_pixels.simps) (auto simp: a)
    moreover have "\<not> (3 * p \<le> 8 * m + (7 - b) \<and> bit (elem q (channel_index (8 * m + (7 - b)))) 0)"
      if "m < T" "b < 8" for m b
    proof
      define pos where "pos = 8 * m + (7 - b)"
      assume "3 * p \<le> 8 * m + (7 - b) \<and> bit (elem q (channel_index (8 * m + (7 - b)))) 0"
      then have h: "3 * p \<le> pos" "bit (elem q (channel_index pos)) 0" by (simp_all add: pos_def)
      have lt: "pos < 8 * T" using that by (simp add: pos_def)
      have "p \<le> pos div 3" using h(1) by arith
      then have "4 * p \<le> channel_index pos" by (simp add: channel_index_def)
      moreover have "channel_index pos < length q"
        using h(2) by (cases "channel_index pos < length q") (simp_all add: elem_def)
      ultimately show False using False lt h(1) less.prems(1) by linarith
    qed
    ultimately show ?thesis using less.prems(2) by auto
  next
    case True
    then have k: "k = 3 * p" using less.prems by linarith
    define n where "n = min 3 (8 * T - k)"
    obtain ab1 where
      e1: "extract_channels q T (4 * p) 0 (ab, k div 8, k mod 8) = (ab1, (k + n) div 8, (k + n) mod 8)"
      and e2: "length ab1 = T"
      and e3: "\<forall>m < T. \<forall>b < 8. bit (ab1 ! m) b \<longleftrightarrow>
               bit (ab ! m) b
               \<or> (k \<le> 8 * m + (7 - b) \<and> 8 * m + (7 - b) < k + n
                  \<and> bit (elem q (4 * p + 0 + (8 * m + (7 - b) - k))) 0)"
      using extract_channels_closed[of 0 ab T q "4 * p" k] less.prems(2) unfolding n_def by auto
    have step: "extract_pixels q T (4 * p) (ab, k div 8, k mod 8)
                 = extract_pixels q T (4 * (p + 1)) (ab1, (k + n) div 8, (k + n) mod 8)"
      using True e1 by (subst extract_pixels.simps) (simp add: a add.commute)
    have pre: "k + n = 3 * (p + 1) \<or> (8 * T \<le> k + n \<and> 8 * T \<le> 3 * (p + 1))"
      using True k unfolding n_def by (auto simp: min_def)
    have "length q - 4 * (p + 1) < length q - 4 * p" using True by arith
    from less.hyps[OF this pre e2] obtain ab' di bi where
      r4: "extract_pixels q T (4 * (p + 1)) (ab1, (k + n) div 8, (k + n) mod 8) = (ab', di, bi)"
      and r5: "length ab' = T"
      and r6: "\<forall>m < T. \<forall>b < 8. bit (ab' ! m) b \<longleftrightarrow>
               bit (ab1 ! m) b
               \<or> (3 * (p + 1) \<le> 8 * m + (7 - b)
                  \<and> bit (elem q (channel_index (8 * m + (7 - b)))) 0)"
      by blast
    have "bit (ab' ! m) b \<longleftrightarrow>
               bit (ab ! m) b
               \<or> (3 * p \<le> 8 * m + (7 - b) \<and> bit (elem q (channel_index (8 * m + (7 - b)))) 0)"
      if m: "m < T" and b: "b < 8" for m b
    proof -
      define pos where "pos = 8 * m + (7 - b)"
      have lt: "pos < 8 * T" using m by (simp add: pos_def)
      have r: "bit (ab' ! m) b \<longleftrightarrow>
               bit (ab1 ! m) b \<or> (3 * (p + 1) \<le> pos \<and> bit (elem q (channel_index pos)) 0)"
        using r6[rule_format, OF m b] unfolding pos_def .
      have u: "bit (ab1 ! m) b \<longleftrightarrow>
               bit (ab ! m) b
               \<or> (3 * p \<le> pos \<and> pos < 3 * p + n \<and> bit (elem q (4 * p + 0 + (pos - 3 * p))) 0)"
        using e3[rule_format, OF m b] unfolding pos_def k .
      have w: "pos < 3 * p + n \<longleftrightarrow> pos < 3 * (p + 1)"
        using lt unfolding n_def k by (auto simp: min_def)
      have ci: "channel_index pos = 4 * p + 0 + (pos - 3 * p)"
        if "3 * p \<le> pos" "pos < 3 * (p + 1)"
      proof -
        from that have "pos div 3 = p" "pos mod 3 = pos - 3 * p" by presburger+
        then show ?thesis by (simp add: channel_index_def)
      qed
      show ?thesis
        unfolding pos_def[symmetric] r u w using ci
        by (cases "3 * (p + 1) \<le> pos"; cases "3 * p \<le> pos") auto
    qed
    then show ?thesis using step r4 r5 by simp
  qed
qed

lemma length_typed_array_set: "typed_array_set dst src off = Inr r \<Longrightarrow> length r = length dst"
  by (auto simp: typed_array_set_def split: if_splits)

lemma length_assemble:
  assumes "assemble_dataToEmbed salt iv hmac keyBytes = Inr d"
  shows "length d = 96"
  using assms
  by (auto simp: assemble_dataToEmbed_def Let_def stego_sizes split: sum.splits dest!: length_typed_array_set)

lemma numberToBytes_92: "numberToBytes 92 = [0, 0, 0, 92]"
  by (simp add: numberToBytes_def)

lemma assemble_layout:
  assumes "length salt = SALT_SIZE" "length iv = IV_SIZE" "length keyBytes = KEY_SIZE" "length hmac = HMAC_SIZE"
  shows "assemble_dataToEmbed salt iv hmac keyBytes = Inr ([0, 0, 0, 92] @ salt @ iv @ keyBytes @ hmac)"
  using assms
  by (simp add: assemble_dataToEmbed_def Let_def stego_sizes typed_array_set_def numberToBytes_92)

lemma embedded_length: "length (fst (embed_pixels d 0 (px, 0, 0))) = length px"
  using embed_pixels_closed[of 0 0 d px] by auto

lemma embedded_byte:
  assumes "j < length px"
  shows "fst (embed_pixels d 0 (px, 0, 0)) ! j =
           (if carries_bit (length d) j
            then (px ! j AND 0xFE) OR payload_bit d (bit_number j)
            else px ! j)"
  using embed_pixels_closed[of 0 0 d px] assms by auto

lemma extracted_length: "length (fst (extract_pixels q T 0 (replicate T 0, 0, 0))) = T"
  using extract_pixels_closed[of 0 0 T "replicate T 0" q] by auto

lemma extracted_bit:
  assumes "m < T" "b < 8"
  shows "bit (fst (extract_pixels q T 0 (replicate T 0, 0, 0)) ! m) b
         \<longleftrightarrow> bit (elem q (channel_index (8 * m + (7 - b)))) 0"
  using extract_pixels_closed[of 0 0 T "replicate T 0" q] assms by auto

lemma too_small_iff: "too_small d px \<longleftrightarrow> 3 * length px < 32 * length d"
proof -
  have "rat_of_nat (length px) / 4 < rat_of_nat (length d) * 8 / 3
        \<longleftrightarrow> rat_of_nat (3 * length px) < rat_of_nat (32 * length d)"
    by (simp add: field_simps)
  then show ?thesis unfolding too_small_def Let_def of_nat_less_iff by simp
qed

lemma channel_index_fits:
  assumes "\<not> too_small d px" "k < 8 * length d"
  shows "channel_index k < length px"
proof -
  define a r where "a = k div 3" and "r = k mod 3"
  have "k = 3 * a + r" by (simp add: a_def r_def)
  moreover have "channel_index k = 4 * a + r" by (simp add: channel_index_def a_def r_def)
  ultimately have "3 * channel_index k \<le> 4 * k" by simp
  then show ?thesis using assms by (simp add: too_small_iff)
qed

lemma channel_index_div_mod:
  "channel_index k div 4 = k div 3" "channel_index k mod 4 = k mod 3"
proof -
  define a r where "a = k div 3" and "r = k mod 3"
  have r: "r < 4" by (simp add: r_def less_trans[OF mod_less_divisor])
  have ci: "channel_index k = 4 * a + r" by (simp add: channel_index_def a_def r_def)
  show "channel_index k div 4 = k div 3" unfolding ci using r by (simp add: a_def)
  show "channel_index k mod 4 = k mod 3" unfolding ci using r by (simp add: r_def)
qed

lemma bit_number_channel_index: "bit_number (channel_index k) = k"
  by (simp add: bit_number_def channel_index_div_mod)

lemma carries_bit_channel_index: "k < 8 * len \<Longrightarrow> carries_bit len (channel_index k)"
  by (simp add: carries_bit_def bit_number_channel_index channel_index_div_mod)

lemma lsb_of_written:
  fixes x :: byte
  shows "bit ((x AND 0xFE) OR payload_bit d k) 0 \<longleftrightarrow> bit (d ! (k div 8)) (7 - k mod 8)"
  by (simp add: payload_bit_def bit_simps bit_1_iff)

lemma codec_roundtrip:
  assumes "\<not> too_small d px"
  shows "fst (extract_pixels (fst (embed_pixels d 0 (px, 0, 0))) (length d) 0
               (replicate (length d) 0, 0, 0)) = d"
proof (rule nth_equalityI)
  let ?q = "fst (embed_pixels d 0 (px, 0, 0))"
  let ?ab = "fst (extract_pixels ?q (length d) 0 (replicate (length d) 0, 0, 0))"
  show "length ?ab = length d" by (rule extracted_length)
  fix m assume "m < length ?ab"
  then have m: "m < length d" by (simp add: extracted_length)
  show "?ab ! m = d ! m"
  proof (rule bit_word_eqI)
    fix b assume "b < LENGTH(8)"
    then have b: "b < 8" by simp
    define k where "k = 8 * m + (7 - b)"
    have k: "k < 8 * length d" using m by (simp add: k_def)
    have "8 * m + (7 - b) = k" by (simp add: k_def)
    then have "m = k div 8 \<and> b = 7 - k mod 8" using bit_position_iff[OF b] by blast
    then have dm: "k div 8 = m" "7 - k mod 8 = b" by simp_all
    have ci: "channel_index k < length px" using channel_index_fits[OF assms k] .
    then have "elem ?q (channel_index k) = ?q ! channel_index k"
      by (simp add: elem_def embedded_length)
    also have "\<dots> = (px ! channel_index k AND 0xFE) OR payload_bit d k"
      using embedded_byte[OF ci, of d] carries_bit_channel_index[OF k]
      by (simp add: bit_number_channel_index)
    finally have "bit (elem ?q (channel_index k)) 0 \<longleftrightarrow> bit (d ! m) b"
      by (simp only: lsb_of_written dm)
    then show "bit (?ab ! m) b \<longleftrightarrow> bit (d ! m) b"
      using extracted_bit[OF m b, of ?q] by (simp add: k_def)
  qed
qed

lemma header_word_bits:
  fixes a b c e :: byte
  defines "w \<equiv> (push_bit 24 (ucast a) OR push_bit 16 (ucast b) OR push_bit 8 (ucast c) OR ucast e :: 32 word)"
  shows "ucast (drop_bit 24 w) = a" "ucast (drop_bit 16 w) = b" "ucast (drop_bit 8 w) = c" "ucast w = e"
  unfolding w_def
  by (rule bit_word_eqI; auto simp: bit_simps dest: bit_imp_le_length)+

lemma header_word_92:
  fixes a b c e :: byte
  shows "(push_bit 24 (ucast a) OR push_bit 16 (ucast b) OR push_bit 8 (ucast c) OR ucast e :: 32 word) = 92
         \<longleftrightarrow> a = 0 \<and> b = 0 \<and> c = 0 \<and> e = 92"
proof
  assume h: "(push_bit 24 (ucast a) OR push_bit 16 (ucast b) OR push_bit 8 (ucast c) OR ucast e :: 32 word) = 92"
  show "a = 0 \<and> b = 0 \<and> c = 0 \<and> e = 92"
    using header_word_bits[of a b c e] unfolding h by simp
next
  assume "a = 0 \<and> b = 0 \<and> c = 0 \<and> e = 92"
  then show "(push_bit 24 (ucast a) OR push_bit 16 (ucast b) OR push_bit 8 (ucast c) OR ucast e :: 32 word) = 92"
    by simp
qed

lemma bytesToNumber_92:
  "bytesToNumber [a, b, c, e] = 92 \<longleftrightarrow> [a, b, c, e] = [0, 0, 0, 92]"
proof -
  have "sint w = 92 \<longleftrightarrow> w = 92" for w :: "32 word"
    using word_eq_iff_signed[of w 92, where ?'a = int] by simp
  then show ?thesis
    by (simp add: bytesToNumber_def elem_def header_word_92)
qed


lemma push_or_byte:
  fixes x y :: nat
  assumes "y < 256"
  shows "push_bit 8 x OR y = 256 * x + y"
proof -
  have "y < 2 ^ 8" using assms by simp
  then have "take_bit 8 y = y" by (simp only: take_bit_nat_eq_self)
  then have y: "bit y n \<Longrightarrow> n < 8" for n
    by (metis bit_take_bit_iff)
  have "push_bit 8 x AND y = 0"
    by (rule bit_eqI) (auto simp: bit_simps dest: y)
  then have "push_bit 8 x + y = push_bit 8 x OR y" by (rule disjunctive_add_eq_or)
  then show ?thesis by (simp add: push_bit_eq_mult)
qed

lemma unat_header_word:
  fixes a b c e :: byte
  shows "unat (push_bit 24 (ucast a) OR push_bit 16 (ucast b) OR push_bit 8 (ucast c) OR ucast e :: 32 word)
         = big_endian_value [a, b, c, e]"
proof -
  have lt: "unat x < 256" for x :: byte
    using unsigned_less[of x, where ?'a = nat] by simp
  have tb: "take_bit 32 (unat x) = unat x" for x :: byte
    using lt[of x] by (simp add: take_bit_nat_eq_self)
  have pb: "take_bit 32 (push_bit 24 (unat x)) = push_bit 24 (unat x)"
    "take_bit 32 (push_bit 16 (unat x)) = push_bit 16 (unat x)"
    "take_bit 32 (push_bit 8 (unat x)) = push_bit 8 (unat x)" for x :: byte
    using lt[of x] by (simp_all add: take_bit_nat_eq_self push_bit_eq_mult)
  have "unat (push_bit 24 (ucast a) OR push_bit 16 (ucast b) OR push_bit 8 (ucast c) OR ucast e :: 32 word)
        = push_bit 24 (unat a) OR push_bit 16 (unat b) OR push_bit 8 (unat c) OR unat e"
    by (simp add: unsigned_or_eq unsigned_push_bit_eq unsigned_ucast_eq tb pb)
  also have "\<dots> = push_bit 8 (push_bit 8 (push_bit 8 (unat a) OR unat b) OR unat c) OR unat e"
    by (simp add: push_bit_or push_bit_push_bit ac_simps)
  also have "\<dots> = 256 * (256 * (256 * unat a + unat b) + unat c) + unat e"
    by (simp only: push_or_byte[OF lt])
  finally show ?thesis by (simp add: big_endian_value_def)
qed





lemma numberToBytes_recombine:
  fixes w :: "32 word"
  shows "push_bit 24 (ucast (ucast (signed_drop_bit 24 w AND 0xFF) :: byte))
         OR push_bit 16 (ucast (ucast (signed_drop_bit 16 w AND 0xFF) :: byte))
         OR push_bit 8 (ucast (ucast (signed_drop_bit 8 w AND 0xFF) :: byte))
         OR ucast (ucast (w AND 0xFF) :: byte) = w"
proof -
  have ff: "(0xFF :: 32 word) = mask 8" by (simp add: mask_eq_exp_minus_1)
  show ?thesis
    unfolding ff
  proof (rule bit_word_eqI)
    fix n assume "n < LENGTH(32)"
    then consider "n < 8" | "8 \<le> n" "n < 16" | "16 \<le> n" "n < 24" | "24 \<le> n" "n < 32"
      by fastforce
    then show "bit (push_bit 24 (ucast (ucast (signed_drop_bit 24 w AND mask 8) :: byte))
         OR push_bit 16 (ucast (ucast (signed_drop_bit 16 w AND mask 8) :: byte))
         OR push_bit 8 (ucast (ucast (signed_drop_bit 8 w AND mask 8) :: byte))
         OR ucast (ucast (w AND mask 8) :: byte) :: 32 word) n = bit w n"
      by cases (auto simp: bit_simps bit_signed_drop_bit_iff)
  qed
qed

lemma numberToBytes_big_endian:
  assumes "0 \<le> n" "n < 2 ^ 32"
  shows "big_endian_value (numberToBytes n) = nat n"
proof -
  let ?w = "word_of_int n :: 32 word"
  have "big_endian_value (numberToBytes n) = unat ?w"
    unfolding numberToBytes_def Let_def unat_header_word[symmetric] numberToBytes_recombine ..
  also have "\<dots> = nat n"
    using assms by (simp add: unat_eq_nat_uint uint_word_of_int take_bit_int_eq_self)
  finally show ?thesis .
qed

lemma length_read_allBytes: "length (read_allBytes canvas) = 96"
  by (simp add: read_allBytes_def Let_def extracted_length stego_sizes)

section \<open>What the canvas gives back\<close>

lemma length_putImageData: "length (putImageData px) = length px"
  by (induction px rule: putImageData.induct) simp_all

lemma stored_opaque: "unpremultiplied 255 (premultiplied 255 c) = c"
proof -
  have "unat c < 256" using unsigned_less[of c, where ?'a = nat] by simp
  then have "min 255 (unat c) = unat c" by simp
  then show ?thesis
    by (simp add: unpremultiplied_def premultiplied_def unat_of_nat)
qed

lemma putImageData_opaque:
  assumes "j < length px" "4 * (j div 4) + 3 < length px" "px ! (4 * (j div 4) + 3) = 255"
  shows "putImageData px ! j = px ! j"
  using assms
proof (induction px arbitrary: j rule: putImageData.induct)
  case (1 r g b a rest)
  show ?case
  proof (cases "j < 4")
    case True
    then have "j div 4 = 0" by simp
    then have a: "a = 255" using "1.prems"(3) by simp
    from True consider "j = 0" | "j = 1" | "j = 2" | "j = 3" by linarith
    then show ?thesis by cases (simp_all add: a stored_opaque)
  next
    case False
    define i where "i = j - 4"
    have j: "j = i + 4" using False by (simp add: i_def)
    have d: "j div 4 = i div 4 + 1" unfolding j by simp
    have "putImageData rest ! i = rest ! i"
    proof (rule "1.IH")
      show "i < length rest" using "1.prems"(1) j by simp
      show "4 * (i div 4) + 3 < length rest" using "1.prems"(2) unfolding d by simp
      have "(r # g # b # a # rest) ! (4 * (j div 4) + 3) = rest ! (4 * (i div 4) + 3)"
        unfolding d by (simp add: add.commute)
      then show "rest ! (4 * (i div 4) + 3) = 255" using "1.prems"(3) by simp
    qed
    then show ?thesis unfolding j by (simp add: nth_append)
  qed
qed simp_all

lemma putImageData_transparent:
  assumes "j < length px" "4 * (j div 4) + 3 < length px" "px ! (4 * (j div 4) + 3) = 0"
  shows "putImageData px ! j = 0"
  using assms
proof (induction px arbitrary: j rule: putImageData.induct)
  case (1 r g b a rest)
  show ?case
  proof (cases "j < 4")
    case True
    then have "j div 4 = 0" by simp
    then have a: "a = 0" using "1.prems"(3) by simp
    from True consider "j = 0" | "j = 1" | "j = 2" | "j = 3" by linarith
    then show ?thesis by cases (simp_all add: a unpremultiplied_def)
  next
    case False
    define i where "i = j - 4"
    have j: "j = i + 4" using False by (simp add: i_def)
    have d: "j div 4 = i div 4 + 1" unfolding j by simp
    have "putImageData rest ! i = 0"
    proof (rule "1.IH")
      show "i < length rest" using "1.prems"(1) j by simp
      show "4 * (i div 4) + 3 < length rest" using "1.prems"(2) unfolding d by simp
      have "(r # g # b # a # rest) ! (4 * (j div 4) + 3) = rest ! (4 * (i div 4) + 3)"
        unfolding d by (simp add: add.commute)
      then show "rest ! (4 * (i div 4) + 3) = 0" using "1.prems"(3) by simp
    qed
    then show ?thesis unfolding j by (simp add: nth_append)
  qed
qed simp_all

lemma read_allBytes_cong:
  assumes "\<And>k. k < 96 * 8 \<Longrightarrow>
             bit (elem q (channel_index k)) 0 \<longleftrightarrow> bit (elem q' (channel_index k)) 0"
  shows "read_allBytes q = read_allBytes q'"
proof (rule nth_equalityI)
  show "length (read_allBytes q) = length (read_allBytes q')"
    by (simp add: length_read_allBytes)
  fix m assume "m < length (read_allBytes q)"
  then have m: "m < 96" by (simp add: length_read_allBytes)
  have r: "read_allBytes p = fst (extract_pixels p 96 0 (replicate 96 0, 0, 0))" for p
    by (simp add: read_allBytes_def Let_def stego_sizes)
  show "read_allBytes q ! m = read_allBytes q' ! m"
  proof (rule bit_word_eqI)
    fix b assume "b < LENGTH(8)"
    then have b: "b < 8" by simp
    have k: "8 * m + (7 - b) < 96 * 8" using m b by simp
    show "bit (read_allBytes q ! m) b \<longleftrightarrow> bit (read_allBytes q' ! m) b"
      unfolding r extracted_bit[OF m b] using assms[OF k] .
  qed
qed

section \<open>The embedded payload\<close>

text \<open>
  Claim C5. The payload that embedding assembles from a 16-byte salt, a 12-byte iv, a
  32-byte key and a 32-byte mac is exactly 96 bytes: the 4-byte big-endian length field
  holding 92, then salt, iv, raw key bytes and mac in that order, with no gaps.
\<close>

theorem embedded_payload_layout:
  assumes "length salt = SALT_SIZE" "length iv = IV_SIZE"
    and "length keyBytes = KEY_SIZE" "length hmac = HMAC_SIZE"
  shows "assemble_dataToEmbed salt iv hmac keyBytes
           = Inr (numberToBytes 92 @ salt @ iv @ keyBytes @ hmac)
         \<and> length (numberToBytes 92 @ salt @ iv @ keyBytes @ hmac) = 96
         \<and> length (numberToBytes 92) = 4
         \<and> big_endian_value (numberToBytes 92) = 92"
  using assms
  by (simp add: assemble_layout numberToBytes_92 big_endian_value_def stego_sizes)

theorem embedded_payload_layout_witness:
  "assemble_dataToEmbed (replicate 16 1) (replicate 12 2) (replicate 32 4) (replicate 32 3)
     = Inr (numberToBytes 92 @ replicate 16 1 @ replicate 12 2 @ replicate 32 3 @ replicate 32 4)
   \<and> big_endian_value (numberToBytes 92) = 92"
  using embedded_payload_layout[of "replicate 16 1" "replicate 12 2" "replicate 32 3" "replicate 32 4"]
  by (simp add: stego_sizes)

section \<open>Properties of the codec\<close>

lemma embed_run_cases:
  assumes "assemble_dataToEmbed salt iv hmac keyBytes = Inr d" and "canvas \<noteq> []"
  shows "embedDataInImage canvas salt iv hmac keyBytes =
           (if too_small d canvas
            then \<lparr>thrown = Some (''Failed to embed data in image: ''
                                 @ ''Image is too small to embed the encryption data''),
                  pixels_after = canvas, canvas_after = canvas\<rparr>
            else \<lparr>thrown = None, pixels_after = fst (embed_pixels d 0 (canvas, 0, 0)),
                  canvas_after = putImageData (fst (embed_pixels d 0 (canvas, 0, 0)))\<rparr>)"
  using assms by (simp add: embedDataInImage_def getImageData_def Let_def)

lemma embed_run_empty:
  "embedDataInImage [] salt iv hmac keyBytes =
     \<lparr>thrown = Some (''Failed to embed data in image: '' @ IndexSizeError_message),
      pixels_after = [], canvas_after = []\<rparr>"
  by (simp add: embedDataInImage_def getImageData_def)

lemma embed_run_fits:
  assumes "assemble_dataToEmbed salt iv hmac keyBytes = Inr d" and "\<not> too_small d canvas"
  shows "embedDataInImage canvas salt iv hmac keyBytes =
           \<lparr>thrown = None, pixels_after = fst (embed_pixels d 0 (canvas, 0, 0)),
            canvas_after = putImageData (fst (embed_pixels d 0 (canvas, 0, 0)))\<rparr>"
proof -
  have "length d = 96" using assms(1) by (rule length_assemble)
  then have "canvas \<noteq> []" using assms(2) by (auto simp: too_small_iff)
  then show ?thesis using embed_run_cases[OF assms(1)] assms(2) by simp
qed

lemma minPixels_256: "minPixels = 256"
  by (simp add: minPixels_def stego_sizes)

lemma keeps_upper_bits:
  fixes x :: byte
  shows "drop_bit 1 ((x AND 0xFE) OR payload_bit d k) = drop_bit 1 x"
proof (rule bit_word_eqI)
  fix n assume "n < LENGTH(8)"
  have fe: "(0xFE :: byte) = NOT 1" by simp
  have 1: "bit (NOT 1 :: byte) (Suc n) \<longleftrightarrow> Suc n < 8"
    by (simp only: bit_not_iff bit_1_iff possible_bit_word) simp
  have 2: "\<not> bit (payload_bit d k) (Suc n)"
    by (simp only: payload_bit_def bit_and_iff bit_1_iff) simp
  have 3: "bit x (Suc n) \<Longrightarrow> Suc n < 8" using bit_imp_le_length[of x "Suc n"] by simp
  have "bit ((x AND 0xFE) OR payload_bit d k) (Suc n) \<longleftrightarrow> bit x (Suc n)"
    unfolding fe bit_or_iff bit_and_iff 1 using 2 3 by blast
  then show "bit (drop_bit 1 ((x AND 0xFE) OR payload_bit d k)) n = bit (drop_bit 1 x) n"
    by (simp only: bit_drop_bit_eq) simp
qed

lemma embedded_alpha:
  assumes "4 * p + 3 < length px"
  shows "fst (embed_pixels d 0 (px, 0, 0)) ! (4 * p + 3) = px ! (4 * p + 3)"
proof -
  have "\<not> carries_bit (length d) (4 * p + 3)" by (simp add: carries_bit_def)
  then show ?thesis using embedded_byte[OF assms, of d] by simp
qed

lemma canvas_keeps_opaque:
  assumes "j < length px" "4 * (j div 4) + 3 < length px" "px ! (4 * (j div 4) + 3) = 255"
  shows "putImageData (fst (embed_pixels d 0 (px, 0, 0))) ! j = fst (embed_pixels d 0 (px, 0, 0)) ! j"
proof (rule putImageData_opaque)
  show "j < length (fst (embed_pixels d 0 (px, 0, 0)))" using assms(1) by (simp add: embedded_length)
  show "4 * (j div 4) + 3 < length (fst (embed_pixels d 0 (px, 0, 0)))"
    using assms(2) by (simp add: embedded_length)
  show "fst (embed_pixels d 0 (px, 0, 0)) ! (4 * (j div 4) + 3) = 255"
    using embedded_alpha[OF assms(2), of d] assms(3) by simp
qed

lemma read_allBytes_array:
  assumes "length d = 96" and "\<not> too_small d canvas"
  shows "read_allBytes (fst (embed_pixels d 0 (canvas, 0, 0))) = d"
proof -
  have "read_allBytes (fst (embed_pixels d 0 (canvas, 0, 0)))
          = fst (extract_pixels (fst (embed_pixels d 0 (canvas, 0, 0))) (length d) 0
                   (replicate (length d) 0, 0, 0))"
    unfolding assms(1) by (simp add: read_allBytes_def Let_def stego_sizes)
  then show ?thesis using assms(2) by (simp add: codec_roundtrip)
qed

lemma read_allBytes_canvas:
  assumes "length d = 96" and "\<not> too_small d canvas"
    and "\<forall>p < 256. canvas ! (4 * p + 3) = 255"
  shows "read_allBytes (putImageData (fst (embed_pixels d 0 (canvas, 0, 0)))) = d"
proof -
  let ?px = "fst (embed_pixels d 0 (canvas, 0, 0))"
  have len: "1024 \<le> length canvas" using assms(1,2) by (simp add: too_small_iff)
  have "read_allBytes (putImageData ?px) = read_allBytes ?px"
  proof (rule read_allBytes_cong)
    fix k :: nat assume k: "k < 96 * 8"
    then have k': "k < 8 * length d" using assms(1) by simp
    have ci: "channel_index k < length canvas" using channel_index_fits[OF assms(2) k'] .
    have dv: "channel_index k div 4 = k div 3" by (rule channel_index_div_mod)
    have p: "k div 3 < 256" using k by simp
    have a: "4 * (channel_index k div 4) + 3 < length canvas" unfolding dv using p len by simp
    have al: "canvas ! (4 * (channel_index k div 4) + 3) = 255" unfolding dv using assms(3) p by simp
    have "putImageData ?px ! channel_index k = ?px ! channel_index k"
      using ci a al by (rule canvas_keeps_opaque)
    then show "bit (elem (putImageData ?px) (channel_index k)) 0
               \<longleftrightarrow> bit (elem ?px (channel_index k)) 0"
      using ci by (simp add: elem_def length_putImageData embedded_length)
  qed
  then show ?thesis using read_allBytes_array[OF assms(1,2)] by simp
qed

lemma extract_of_allBytes:
  assumes "read_allBytes canvas = [0, 0, 0, 92] @ s @ i @ k @ h"
    and "length s = 16" "length i = 12" "length k = 32" "length h = 32"
  shows "extractDataFromImage canvas = Inr \<lparr>ex_salt = s, ex_iv = i, ex_keyBytes = k, ex_hmac = h\<rparr>"
  using assms
  by (simp add: extractDataFromImage_def Let_def slice_bytes_def stego_sizes bytesToNumber_def elem_def)

lemma extract_after_embed:
  assumes "length salt = SALT_SIZE" "length iv = IV_SIZE"
    and "length keyBytes = KEY_SIZE" "length hmac = HMAC_SIZE"
    and "length canvas = 4 * pixelCount" "minPixels \<le> pixelCount"
    and "\<forall>p < minPixels. canvas ! (4 * p + 3) = 255"
  shows "thrown (embedDataInImage canvas salt iv hmac keyBytes) = None
         \<and> extractDataFromImage (canvas_after (embedDataInImage canvas salt iv hmac keyBytes))
             = Inr \<lparr>ex_salt = salt, ex_iv = iv, ex_keyBytes = keyBytes, ex_hmac = hmac\<rparr>"
proof -
  let ?d = "[0, 0, 0, 92] @ salt @ iv @ keyBytes @ hmac"
  have d: "assemble_dataToEmbed salt iv hmac keyBytes = Inr ?d"
    using assms(1-4) by (rule assemble_layout)
  have l: "length ?d = 96" using assms(1-4) by (simp add: stego_sizes)
  then have fits: "\<not> too_small ?d canvas"
    using assms(5,6) unfolding too_small_iff minPixels_256 by simp
  have opaque: "\<forall>p < 256. canvas ! (4 * p + 3) = 255" using assms(7) by (simp add: minPixels_256)
  have "read_allBytes (canvas_after (embedDataInImage canvas salt iv hmac keyBytes)) = ?d"
    unfolding embed_run_fits[OF d fits] using read_allBytes_canvas[OF l fits opaque] by simp
  then have "extractDataFromImage (canvas_after (embedDataInImage canvas salt iv hmac keyBytes))
             = Inr \<lparr>ex_salt = salt, ex_iv = iv, ex_keyBytes = keyBytes, ex_hmac = hmac\<rparr>"
    using assms(1-4) by (intro extract_of_allBytes) (simp_all add: stego_sizes)
  then show ?thesis unfolding embed_run_fits[OF d fits] by simp
qed

text \<open>
  Claim C4, as stated, fails on a canvas with no pixel: it has fewer than 256 pixels, and
  embedding into it does fail, but with the error of \<^verbatim>\<open>getImageData\<close>, which is thrown
  before the capacity test is reached. What holds is this. \<open>minPixels\<close> is
  \<open>ceil((4 + 92) * 8 / 3) = 256\<close>. Embedding the 96-byte payload into a canvas of
  exactly \<open>minPixels\<close> pixels succeeds: nothing is thrown, the pixel array holds the
  payload afterwards (the least significant bits of its colour bytes, read in the order
  of extraction, are the 96 bytes), and when the 256 pixels are opaque, extraction from
  the canvas returns the embedded salt, iv, key and mac. Embedding into a canvas of 1 to
  255 pixels throws the error ``Image is too small to embed the encryption data'' (the
  capacity error), and both the pixel array and the canvas are byte for byte what they
  were: the test comes before the first write. On a canvas with no pixel the error is
  that of \<^verbatim>\<open>getImageData\<close>, and the canvas is unchanged as well.
  \<open>validateImageCapacity\<close> accepts exactly the dimensions with at least \<open>minPixels\<close>
  pixels.
\<close>

theorem capacity_boundary:
  assumes "length salt = SALT_SIZE" "length iv = IV_SIZE"
    and "length keyBytes = KEY_SIZE" "length hmac = HMAC_SIZE"
  shows "minPixels = 256
         \<and> (length canvas = 4 * minPixels \<longrightarrow>
              (let run = embedDataInImage canvas salt iv hmac keyBytes in
                 thrown run = None
                 \<and> length (pixels_after run) = length canvas
                 \<and> read_allBytes (pixels_after run) = numberToBytes 92 @ salt @ iv @ keyBytes @ hmac
                 \<and> ((\<forall>p < minPixels. canvas ! (4 * p + 3) = 255) \<longrightarrow>
                      extractDataFromImage (canvas_after run)
                        = Inr \<lparr>ex_salt = salt, ex_iv = iv, ex_keyBytes = keyBytes, ex_hmac = hmac\<rparr>)))
         \<and> (length canvas = 4 * n \<and> 0 < n \<and> n < minPixels \<longrightarrow>
              embedDataInImage canvas salt iv hmac keyBytes =
                \<lparr>thrown = Some ''Failed to embed data in image: Image is too small to embed the encryption data'',
                 pixels_after = canvas, canvas_after = canvas\<rparr>)
         \<and> (length canvas = 0 \<longrightarrow>
              embedDataInImage canvas salt iv hmac keyBytes =
                \<lparr>thrown = Some (''Failed to embed data in image: '' @ IndexSizeError_message),
                 pixels_after = [], canvas_after = canvas\<rparr>)
         \<and> (validateImageCapacity width height \<longleftrightarrow> minPixels \<le> width * height)"
proof -
  let ?d = "[0, 0, 0, 92] @ salt @ iv @ keyBytes @ hmac"
  have d: "assemble_dataToEmbed salt iv hmac keyBytes = Inr ?d" using assms by (rule assemble_layout)
  have l: "length ?d = 96" using assms by (simp add: stego_sizes)
  have ts: "too_small ?d canvas \<longleftrightarrow> length canvas < 1024"
    unfolding too_small_iff l by arith
  have exact: "(let run = embedDataInImage canvas salt iv hmac keyBytes in
                 thrown run = None
                 \<and> length (pixels_after run) = length canvas
                 \<and> read_allBytes (pixels_after run) = numberToBytes 92 @ salt @ iv @ keyBytes @ hmac
                 \<and> ((\<forall>p < minPixels. canvas ! (4 * p + 3) = 255) \<longrightarrow>
                      extractDataFromImage (canvas_after run)
                        = Inr \<lparr>ex_salt = salt, ex_iv = iv, ex_keyBytes = keyBytes, ex_hmac = hmac\<rparr>))"
    if c: "length canvas = 4 * minPixels"
  proof -
    have fits: "\<not> too_small ?d canvas" unfolding ts using c by (simp add: minPixels_256)
    have "extractDataFromImage (canvas_after (embedDataInImage canvas salt iv hmac keyBytes))
            = Inr \<lparr>ex_salt = salt, ex_iv = iv, ex_keyBytes = keyBytes, ex_hmac = hmac\<rparr>"
      if "\<forall>p < minPixels. canvas ! (4 * p + 3) = 255"
      using extract_after_embed[OF assms c order_refl that] by simp
    then show ?thesis
      unfolding Let_def embed_run_fits[OF d fits]
      using read_allBytes_array[OF l fits]
      by (simp add: embedded_length numberToBytes_92 embed_run_fits[OF d fits])
  qed
  have small: "embedDataInImage canvas salt iv hmac keyBytes =
                \<lparr>thrown = Some ''Failed to embed data in image: Image is too small to embed the encryption data'',
                 pixels_after = canvas, canvas_after = canvas\<rparr>"
    if "length canvas = 4 * n \<and> 0 < n \<and> n < minPixels"
  proof -
    have "canvas \<noteq> []" using that by auto
    moreover have "too_small ?d canvas" unfolding ts using that by (simp add: minPixels_256)
    ultimately show ?thesis using embed_run_cases[OF d] by simp
  qed
  have empty: "embedDataInImage canvas salt iv hmac keyBytes =
                \<lparr>thrown = Some (''Failed to embed data in image: '' @ IndexSizeError_message),
                 pixels_after = [], canvas_after = canvas\<rparr>"
    if "length canvas = 0"
    using that embed_run_empty by simp
  have "validateImageCapacity width height \<longleftrightarrow> minPixels \<le> width * height"
    by (simp add: validateImageCapacity_def minPixels_def Let_def)
  then show ?thesis
    using minPixels_256 exact small empty by blast
qed

theorem capacity_boundary_witness:
  "(let run = embedDataInImage (replicate 1024 255) (replicate 16 1) (replicate 12 2)
                (replicate 32 4) (replicate 32 3)
    in thrown run = None
       \<and> read_allBytes (pixels_after run)
           = numberToBytes 92 @ replicate 16 1 @ replicate 12 2 @ replicate 32 3 @ replicate 32 4
       \<and> extractDataFromImage (canvas_after run)
           = Inr \<lparr>ex_salt = replicate 16 1, ex_iv = replicate 12 2,
                  ex_keyBytes = replicate 32 3, ex_hmac = replicate 32 4\<rparr>)
   \<and> embedDataInImage (replicate 1020 255) (replicate 16 1) (replicate 12 2) (replicate 32 4) (replicate 32 3) =
        \<lparr>thrown = Some ''Failed to embed data in image: Image is too small to embed the encryption data'',
         pixels_after = replicate 1020 255, canvas_after = replicate 1020 255\<rparr>
   \<and> embedDataInImage [] (replicate 16 1) (replicate 12 2) (replicate 32 4) (replicate 32 3) =
        \<lparr>thrown = Some ''Failed to embed data in image: The source width is 0.'',
         pixels_after = [], canvas_after = []\<rparr>
   \<and> validateImageCapacity 16 16 \<and> \<not> validateImageCapacity 15 17"
proof -
  have opaque: "\<forall>p < minPixels. replicate 1024 (255 :: byte) ! (4 * p + 3) = 255"
    by (simp add: minPixels_256)
  note a = capacity_boundary[of "replicate 16 1" "replicate 12 2" "replicate 32 3" "replicate 32 4"
          "replicate 1024 255" 256 16 16]
  note b = capacity_boundary[of "replicate 16 1" "replicate 12 2" "replicate 32 3" "replicate 32 4"
          "replicate 1020 255" 255 15 17]
  note c = capacity_boundary[of "replicate 16 1" "replicate 12 2" "replicate 32 3" "replicate 32 4"
          "[]" 0 16 16]
  show ?thesis
    using a b c opaque unfolding Let_def
    by (simp add: stego_sizes IndexSizeError_message_def)
qed

theorem empty_canvas_counterexample:
  "embedDataInImage [] (replicate 16 1) (replicate 12 2) (replicate 32 4) (replicate 32 3) =
     \<lparr>thrown = Some ''Failed to embed data in image: The source width is 0.'',
      pixels_after = [], canvas_after = []\<rparr>
   \<and> thrown (embedDataInImage [] (replicate 16 1) (replicate 12 2) (replicate 32 4) (replicate 32 3))
       \<noteq> Some ''Failed to embed data in image: Image is too small to embed the encryption data''"
  by (simp add: embed_run_empty IndexSizeError_message_def)

text \<open>
  Claim C3. A successful embed keeps the length of the pixel array and, for each of the
  \<open>96 * 8\<close> payload bits \<open>k\<close>, replaces the least significant bit of the byte at
  \<open>channel_index k\<close> (channel \<open>k mod 3\<close> of R, G, B of pixel \<open>k div 3\<close>, a pixel among
  the first 256 in raster order) by bit \<open>7 - k mod 8\<close> of payload byte \<open>k div 8\<close>.
  Every alpha byte, every bit above the least significant one, and every byte of a
  pixel beyond the first 256 is unchanged. This is what the loops write into the array
  \<open>pixels\<close>. The canvas has its size afterwards as before, and each of its opaque
  pixels holds exactly the bytes of the array.
\<close>

theorem embed_frame:
  assumes "assemble_dataToEmbed salt iv hmac keyBytes = Inr d"
    and "thrown (embedDataInImage canvas salt iv hmac keyBytes) = None"
  shows "(let run = embedDataInImage canvas salt iv hmac keyBytes;
              pixels = pixels_after run
          in length pixels = length canvas
          \<and> (\<forall>k < 96 * 8.
                channel_index k < 4 * 256
                \<and> pixels ! channel_index k = (canvas ! channel_index k AND 0xFE) OR payload_bit d k)
          \<and> (\<forall>j < length canvas. j mod 4 = 3 \<longrightarrow> pixels ! j = canvas ! j)
          \<and> (\<forall>j < length canvas. drop_bit 1 (pixels ! j) = drop_bit 1 (canvas ! j))
          \<and> (\<forall>j < length canvas. 4 * 256 \<le> j \<longrightarrow> pixels ! j = canvas ! j)
          \<and> length (canvas_after run) = length canvas
          \<and> (\<forall>j < length canvas.
                4 * (j div 4) + 3 < length canvas \<and> canvas ! (4 * (j div 4) + 3) = 255
                \<longrightarrow> canvas_after run ! j = pixels ! j))"
proof -
  let ?after = "fst (embed_pixels d 0 (canvas, 0, 0))"
  have l: "length d = 96" using assms(1) by (rule length_assemble)
  have ne: "canvas \<noteq> []"
    using assms(2) embed_run_empty[of salt iv hmac keyBytes] by auto
  have fits: "\<not> too_small d canvas"
    using assms(2) unfolding embed_run_cases[OF assms(1) ne] by (simp split: if_splits)
  note run = embed_run_fits[OF assms(1) fits]
  have byte: "?after ! j = (if carries_bit 96 j
            then (canvas ! j AND 0xFE) OR payload_bit d (bit_number j)
            else canvas ! j)" if "j < length canvas" for j
    using embedded_byte[OF that, of d] unfolding l .
  have a: "length ?after = length canvas" by (rule embedded_length)
  have b: "channel_index k < 4 * 256
           \<and> ?after ! channel_index k = (canvas ! channel_index k AND 0xFE) OR payload_bit d k"
    if "k < 96 * 8" for k
  proof -
    have k: "k < 8 * length d" using that l by simp
    have "k div 3 < 256" using that by simp
    then have "channel_index k div 4 < 256" by (simp add: channel_index_div_mod)
    then have "channel_index k < 4 * 256" by simp
    moreover have "carries_bit 96 (channel_index k)" using carries_bit_channel_index[OF k] l by simp
    ultimately show ?thesis
      using byte[OF channel_index_fits[OF fits k]] by (simp add: bit_number_channel_index)
  qed
  have c: "?after ! j = canvas ! j" if "j < length canvas" "j mod 4 = 3" for j
    using byte[OF that(1)] that(2) by (simp add: carries_bit_def)
  have dd: "drop_bit 1 (?after ! j) = drop_bit 1 (canvas ! j)" if "j < length canvas" for j
    unfolding byte[OF that] by (cases "carries_bit 96 j") (simp_all only: if_True if_False keeps_upper_bits)
  have e: "?after ! j = canvas ! j" if "j < length canvas" "4 * 256 \<le> j" for j
  proof -
    have "256 \<le> j div 4" using that(2) by simp
    then have "\<not> carries_bit 96 j" by (simp add: carries_bit_def bit_number_def)
    then show ?thesis using byte[OF that(1)] by simp
  qed
  have f: "length (putImageData ?after) = length canvas"
    by (simp add: length_putImageData embedded_length)
  have g: "putImageData ?after ! j = ?after ! j"
    if "j < length canvas" "4 * (j div 4) + 3 < length canvas \<and> canvas ! (4 * (j div 4) + 3) = 255"
    for j
    using that by (intro canvas_keeps_opaque) simp_all
  show ?thesis unfolding run Let_def embed_run.simps using a b c dd e f g by blast
qed

theorem embed_frame_witness:
  "(let canvas = replicate 1200 0xFF;
        d = numberToBytes 92 @ replicate 16 1 @ replicate 12 2 @ replicate 32 3 @ replicate 32 4;
        run = embedDataInImage canvas (replicate 16 1) (replicate 12 2)
                  (replicate 32 4) (replicate 32 3);
        pixels = pixels_after run
    in length pixels = 1200
       \<and> pixels ! channel_index 30 = (canvas ! channel_index 30 AND 0xFE) OR payload_bit d 30
       \<and> pixels ! 7 = canvas ! 7
       \<and> drop_bit 1 (pixels ! 5) = drop_bit 1 (canvas ! 5)
       \<and> pixels ! 1100 = canvas ! 1100
       \<and> length (canvas_after run) = 1200
       \<and> canvas_after run ! channel_index 30 = pixels ! channel_index 30)"
proof -
  let ?canvas = "replicate 1200 (0xFF :: byte)"
  let ?d = "numberToBytes 92 @ replicate 16 1 @ replicate 12 2 @ replicate 32 3 @ replicate 32 4"
  have d: "assemble_dataToEmbed (replicate 16 1) (replicate 12 2) (replicate 32 4) (replicate 32 3)
            = Inr ?d"
    by (simp add: assemble_layout numberToBytes_92 stego_sizes)
  have fits: "\<not> too_small ?d ?canvas" by (simp add: too_small_iff numberToBytes_92)
  have t: "thrown (embedDataInImage ?canvas (replicate 16 1) (replicate 12 2)
             (replicate 32 4) (replicate 32 3)) = None"
    unfolding embed_run_fits[OF d fits] by simp
  note f = embed_frame[OF d t, unfolded Let_def]
  let ?run = "embedDataInImage ?canvas (replicate 16 1) (replicate 12 2)
                (replicate 32 4) (replicate 32 3)"
  have g: "\<forall>j < length ?canvas.
             4 * (j div 4) + 3 < length ?canvas \<and> ?canvas ! (4 * (j div 4) + 3) = 255
             \<longrightarrow> canvas_after ?run ! j = pixels_after ?run ! j"
    using f by blast
  have "canvas_after ?run ! channel_index 30 = pixels_after ?run ! channel_index 30"
    using g[rule_format, of "channel_index 30"] by (simp add: channel_index_def)
  then show ?thesis
    using f unfolding Let_def by simp
qed





section \<open>Properties of the pipeline\<close>

lemma example_subtle_laws: "webcrypto_laws example_subtle"
  by (auto simp: webcrypto_laws_def example_subtle_def Let_def KEY_LENGTH_def SALT_LENGTH_def
        IV_LENGTH_def min_def)

lemma decryptFile_eq:
  "decryptFile S encryptedBlob pin salt iv expectedHMAC =
     (case deriveKeyFromPIN S pin salt of
        (c1, Inl e) \<Rightarrow> (c1, Inl (''Failed to decrypt file: '' @ e))
      | (c1, Inr key) \<Rightarrow>
          (case verifyHMAC S encryptedBlob expectedHMAC key of
             (c2, isValid) \<Rightarrow>
               if \<not> isValid then
                 (c1 @ c2, Inl (''Failed to decrypt file: ''
                                @ ''HMAC verification failed - data may be corrupted''))
               else
                 (case decryptData S encryptedBlob key iv of
                    (c3, Inl e) \<Rightarrow> (c1 @ c2 @ c3, Inl (''Failed to decrypt file: '' @ e))
                  | (c3, Inr decryptedData) \<Rightarrow> (c1 @ c2 @ c3, Inr decryptedData))))"
  by (simp add: decryptFile_def decryptFile_io_def notify_def Let_def
           split: prod.splits sum.splits)

text \<open>
  Claim C1. With Web Crypto satisfying the laws above and the salt and iv of the sizes the
  random generator is asked for, for every byte sequence \<open>P\<close> (the empty one included)
  and every pin \<open>K\<close> (so for every 6-digit one), \<open>encryptFile\<close> on \<open>(P, K)\<close> succeeds,
  and \<open>decryptFile\<close> on the ciphertext it produced, with the salt, iv and mac it
  returned and the same pin, returns exactly \<open>P\<close>.
\<close>

theorem encrypt_decrypt_round_trip:
  assumes "webcrypto_laws S" "length salt = SALT_LENGTH" "length iv = IV_LENGTH"
  shows "\<exists>r. snd (encryptFile S salt iv P K) = Inr r
             \<and> enc_salt r = salt \<and> enc_iv r = iv
             \<and> snd (decryptFile S (encrypted r) K (enc_salt r) (enc_iv r) (enc_hmac r)) = Inr P"
proof -
  let ?pw = "TextEncoder_encode K"
  from assms(1,2) obtain key where
    k: "pbkdf2_deriveKey S ?pw salt PBKDF2_ITERATIONS SHA_256 KEY_LENGTH = Some key"
    and kl: "8 * length key = KEY_LENGTH"
    unfolding webcrypto_laws_def by blast
  from assms(1,3) kl obtain c where
    e: "aes_gcm_encrypt S key iv 128 P = Some c" and d: "aes_gcm_decrypt S key iv 128 c = Some P"
    unfolding webcrypto_laws_def by blast
  from assms(1) kl obtain s where
    m: "hmac_sign S key SHA_256 c = Some s" and v: "hmac_verify S key SHA_256 s c = Some True"
    unfolding webcrypto_laws_def by blast
  have "snd (encryptFile S salt iv P K)
          = Inr \<lparr>encrypted = c, enc_salt = salt, enc_iv = iv, enc_key = key, enc_hmac = s\<rparr>"
    by (simp add: encryptFile_def deriveKeyFromPIN_def encryptData_def computeHMAC_def Let_def k e m)
  moreover have "snd (decryptFile S c K salt iv s) = Inr P"
    by (simp add: decryptFile_eq deriveKeyFromPIN_def verifyHMAC_def decryptData_def Let_def k v d)
  ultimately show ?thesis by simp
qed

theorem encrypt_decrypt_round_trip_witness:
  "\<exists>r. snd (encryptFile example_subtle (replicate 16 7) (replicate 12 9) [1, 2, 3] ''123456'') = Inr r
       \<and> enc_salt r = replicate 16 7 \<and> enc_iv r = replicate 12 9
       \<and> snd (decryptFile example_subtle (encrypted r) ''123456'' (enc_salt r) (enc_iv r) (enc_hmac r))
           = Inr [1, 2, 3]"
  using encrypt_decrypt_round_trip[OF example_subtle_laws, of "replicate 16 7" "replicate 12 9" "[1, 2, 3]" "''123456''"]
  by (simp add: SALT_LENGTH_def IV_LENGTH_def)

lemma deriveKeyFromPIN_calls:
  "fst (deriveKeyFromPIN S pin salt) =
     [ImportKey PBKDF2 (TextEncoder_encode pin),
      DeriveKey (TextEncoder_encode pin) salt PBKDF2_ITERATIONS SHA_256 KEY_LENGTH]"
  by (simp add: deriveKeyFromPIN_def Let_def split: option.splits)

lemma deriveKeyFromPIN_result:
  "snd (deriveKeyFromPIN S pin salt) =
     (case pbkdf2_deriveKey S (TextEncoder_encode pin) salt PBKDF2_ITERATIONS SHA_256 KEY_LENGTH of
        None \<Rightarrow> Inl ''Failed to derive encryption key from PIN''
      | Some key \<Rightarrow> Inr key)"
  by (simp add: deriveKeyFromPIN_def Let_def split: option.splits)

lemma decryptFile_cases:
  "decryptFile S c pin salt iv mac =
     (let c1 = fst (deriveKeyFromPIN S pin salt) in
      case snd (deriveKeyFromPIN S pin salt) of
        Inl e \<Rightarrow> (c1, Inl (''Failed to decrypt file: '' @ e))
      | Inr key \<Rightarrow>
          let c2 = [ExportKey key, ImportKey HMAC key, Verify key SHA_256 mac c] in
          if hmac_verify S key SHA_256 mac c \<noteq> Some True then
            (c1 @ c2, Inl ''Failed to decrypt file: HMAC verification failed - data may be corrupted'')
          else
            (c1 @ c2 @ [Decrypt key iv 128 c],
             case aes_gcm_decrypt S key iv 128 c of
               None \<Rightarrow> Inl ''Failed to decrypt file: Decryption failed - incorrect PIN or corrupted data''
             | Some p \<Rightarrow> Inr p))"
  by (auto simp: decryptFile_eq verifyHMAC_def decryptData_def Let_def
           split: prod.splits sum.splits option.splits)

text \<open>
  Claim C7. In every run of \<open>decryptFile\<close> on a ciphertext \<open>c\<close> with expected mac
  \<open>mac\<close>: each \<^verbatim>\<open>verify\<close> call is on \<open>mac\<close> and \<open>c\<close> (the ciphertext; no plaintext
  exists yet); a \<^verbatim>\<open>decrypt\<close> call, if there is one, is on \<open>c\<close>, comes directly after
  the \<^verbatim>\<open>verify\<close> call and only after that call answered true; and when the
  verification does not answer true the run throws the HMAC error and contains no
  \<^verbatim>\<open>decrypt\<close> call at all. In \<open>encryptFile\<close> the only \<^verbatim>\<open>sign\<close> call is on the
  ciphertext that AES-GCM returned for the file.
\<close>

theorem mac_before_decrypt:
  "(let cs = fst (decryptFile S c pin salt iv mac);
        res = snd (decryptFile S c pin salt iv mac)
    in (\<forall>k i t d. Decrypt k i t d \<in> set cs \<longrightarrow>
          d = c \<and> hmac_verify S k SHA_256 mac c = Some True
          \<and> (\<exists>pre. cs = pre @ [Verify k SHA_256 mac c, Decrypt k i t d]))
       \<and> (\<forall>k h s d. Verify k h s d \<in> set cs \<longrightarrow> d = c \<and> s = mac)
       \<and> (\<forall>key. snd (deriveKeyFromPIN S pin salt) = Inr key
                 \<and> hmac_verify S key SHA_256 mac c \<noteq> Some True \<longrightarrow>
             res = Inl ''Failed to decrypt file: HMAC verification failed - data may be corrupted''
             \<and> (\<forall>k i t d. Decrypt k i t d \<notin> set cs)))
   \<and> (\<forall>r. snd (encryptFile S salt iv P pin) = Inr r \<longrightarrow>
          (\<forall>k h d. Sign k h d \<in> set (fst (encryptFile S salt iv P pin)) \<longrightarrow>
              d = encrypted r \<and> aes_gcm_encrypt S k iv 128 P = Some d)
          \<and> (\<exists>k. Sign k SHA_256 (encrypted r) \<in> set (fst (encryptFile S salt iv P pin))))"
proof -
  have dec: "(let cs = fst (decryptFile S c pin salt iv mac);
        res = snd (decryptFile S c pin salt iv mac)
    in (\<forall>k i t d. Decrypt k i t d \<in> set cs \<longrightarrow>
          d = c \<and> hmac_verify S k SHA_256 mac c = Some True
          \<and> (\<exists>pre. cs = pre @ [Verify k SHA_256 mac c, Decrypt k i t d]))
       \<and> (\<forall>k h s d. Verify k h s d \<in> set cs \<longrightarrow> d = c \<and> s = mac)
       \<and> (\<forall>key. snd (deriveKeyFromPIN S pin salt) = Inr key
                 \<and> hmac_verify S key SHA_256 mac c \<noteq> Some True \<longrightarrow>
             res = Inl ''Failed to decrypt file: HMAC verification failed - data may be corrupted''
             \<and> (\<forall>k i t d. Decrypt k i t d \<notin> set cs)))"
    unfolding decryptFile_cases Let_def deriveKeyFromPIN_calls
    by (auto split: sum.splits)
  have enc: "\<forall>r. snd (encryptFile S salt iv P pin) = Inr r \<longrightarrow>
          (\<forall>k h d. Sign k h d \<in> set (fst (encryptFile S salt iv P pin)) \<longrightarrow>
              d = encrypted r \<and> aes_gcm_encrypt S k iv 128 P = Some d)
          \<and> (\<exists>k. Sign k SHA_256 (encrypted r) \<in> set (fst (encryptFile S salt iv P pin)))"
    by (auto simp: encryptFile_def deriveKeyFromPIN_def encryptData_def computeHMAC_def Let_def
             split: option.splits)
  show ?thesis using dec enc by blast
qed

lemma example_pins:
  "TextEncoder_encode ''123456'' = [49, 50, 51, 52, 53, 54]"
  "TextEncoder_encode ''654321'' = [54, 53, 52, 51, 50, 49]"
  by (simp_all add: TextEncoder_encode_def)

lemmas example_simps = deriveKeyFromPIN_def encryptData_def decryptData_def computeHMAC_def
  verifyHMAC_def example_subtle_def Let_def example_pins example_defs
  KEY_LENGTH_def PBKDF2_ITERATIONS_def

lemma example_derive:
  "snd (deriveKeyFromPIN example_subtle ''123456'' example_salt) = Inr example_key"
  "snd (deriveKeyFromPIN example_subtle ''654321'' example_salt) = Inr example_wrong_key"
  by (simp_all add: example_simps)

lemma example_verify:
  "hmac_verify example_subtle example_key SHA_256 example_mac example_ciphertext = Some True"
  "hmac_verify example_subtle example_wrong_key SHA_256 example_mac example_ciphertext = Some False"
  by (simp_all add: example_simps)

lemma example_encryptFile:
  "snd (encryptFile example_subtle example_salt example_iv [1, 2, 3] ''123456'') =
     Inr \<lparr>encrypted = example_ciphertext, enc_salt = example_salt, enc_iv = example_iv,
          enc_key = example_key, enc_hmac = example_mac\<rparr>"
  by (simp add: encryptFile_def example_simps)

lemma example_decrypt_call:
  "Decrypt example_key example_iv 128 example_ciphertext
     \<in> set (fst (decryptFile example_subtle example_ciphertext ''123456'' example_salt example_iv example_mac))"
  by (simp add: decryptFile_eq example_simps)

theorem mac_before_decrypt_witness:
  "snd (decryptFile example_subtle example_ciphertext ''654321'' example_salt example_iv example_mac)
     = Inl ''Failed to decrypt file: HMAC verification failed - data may be corrupted''
   \<and> Decrypt example_wrong_key example_iv 128 example_ciphertext
       \<notin> set (fst (decryptFile example_subtle example_ciphertext ''654321'' example_salt example_iv example_mac))
   \<and> (\<exists>pre. fst (decryptFile example_subtle example_ciphertext ''123456'' example_salt example_iv example_mac)
         = pre @ [Verify example_key SHA_256 example_mac example_ciphertext,
                  Decrypt example_key example_iv 128 example_ciphertext])"
proof -
  note wrong = mac_before_decrypt[of example_subtle example_ciphertext "''654321''" example_salt
                 example_iv example_mac "[1, 2, 3]"]
  note right = mac_before_decrypt[of example_subtle example_ciphertext "''123456''" example_salt
                 example_iv example_mac "[1, 2, 3]"]
  have 1: "snd (decryptFile example_subtle example_ciphertext ''654321'' example_salt example_iv example_mac)
     = Inl ''Failed to decrypt file: HMAC verification failed - data may be corrupted''
   \<and> Decrypt example_wrong_key example_iv 128 example_ciphertext
       \<notin> set (fst (decryptFile example_subtle example_ciphertext ''654321'' example_salt example_iv example_mac))"
    using wrong example_derive(2) example_verify(2) unfolding Let_def by auto
  have 2: "\<exists>pre. fst (decryptFile example_subtle example_ciphertext ''123456'' example_salt example_iv example_mac)
         = pre @ [Verify example_key SHA_256 example_mac example_ciphertext,
                  Decrypt example_key example_iv 128 example_ciphertext]"
    using right example_decrypt_call unfolding Let_def by blast
  show ?thesis using 1 2 by simp
qed

lemma decryptFile_io_quiet:
  assumes "\<forall>percent \<in> {5, 15, 30, 50, 90, 100}. notify progressCallback percent = None"
  shows "decryptFile_io S (Inr c) pin salt iv mac progressCallback = decryptFile S c pin salt iv mac"
  using assms
  by (simp add: decryptFile_def decryptFile_io_def notify_def Let_def
           split: prod.splits sum.splits option.splits)

lemma decryptFile_io_errors:
  assumes "snd (decryptFile_io S arrayBuffer pin salt iv mac progressCallback) = Inl e"
  shows "\<exists>cause. e = ''Failed to decrypt file: '' @ cause
           \<and> (cause \<in> {''Failed to derive encryption key from PIN'',
                         ''HMAC verification failed - data may be corrupted'',
                         ''Decryption failed - incorrect PIN or corrupted data''}
               \<or> arrayBuffer = Inl cause
               \<or> (\<exists>percent \<in> {5, 15, 30, 50, 90, 100}.
                     notify progressCallback percent = Some cause))"
  using assms
  unfolding decryptFile_io_def Let_def deriveKeyFromPIN_def decryptData_def verifyHMAC_def
  by (auto split: option.splits sum.splits prod.splits if_splits)

lemma lower_ascii:
  "toLowerCase ''Failed to decrypt file: Failed to derive encryption key from PIN''
     = ''failed to decrypt file: failed to derive encryption key from pin''"
  "toLowerCase ''Failed to decrypt file: HMAC verification failed - data may be corrupted''
     = ''failed to decrypt file: hmac verification failed - data may be corrupted''"
  "toLowerCase ''Failed to decrypt file: Decryption failed - incorrect PIN or corrupted data''
     = ''failed to decrypt file: decryption failed - incorrect pin or corrupted data''"
  by (simp_all add: toLowerCase_def lower_char_def char_of_def bit_Suc_0_iff)

lemma shown_for_decrypt_errors:
  "getCryptoErrorMessage ''Failed to decrypt file: Failed to derive encryption key from PIN''
     = ''Decryption failed - incorrect PIN or corrupted files''"
  "getCryptoErrorMessage ''Failed to decrypt file: HMAC verification failed - data may be corrupted''
     = ''Decryption failed - incorrect PIN or corrupted files''"
  "getCryptoErrorMessage ''Failed to decrypt file: Decryption failed - incorrect PIN or corrupted data''
     = ''Decryption failed - incorrect PIN or corrupted files''"
  by (simp_all add: getCryptoErrorMessage_def lower_ascii)

lemma lower_prefix:
  "toLowerCase (''Failed to decrypt file: '' @ cause) = ''failed to decrypt file: '' @ toLowerCase cause"
  by (simp add: toLowerCase_def lower_char_def char_of_def bit_Suc_0_iff)

lemma includes_behind_prefix:
  "string_includes (''failed to decrypt file: '' @ s) ''secure context''
     \<longleftrightarrow> string_includes s ''secure context''"
  "string_includes (''failed to decrypt file: '' @ s) ''not supported''
     \<longleftrightarrow> string_includes s ''not supported''"
  "string_includes (''failed to decrypt file: '' @ s) ''decrypt''"
  by simp_all

lemma shown_for_decryptFile_error:
  "getCryptoErrorMessage (''Failed to decrypt file: '' @ cause) =
     (if string_includes (toLowerCase cause) ''secure context''
      then ''This app requires HTTPS. Please access via https:// or localhost''
      else if string_includes (toLowerCase cause) ''not supported''
      then ''Your browser does not support the required encryption features''
      else ''Decryption failed - incorrect PIN or corrupted files'')"
  unfolding getCryptoErrorMessage_def Let_def lower_prefix includes_behind_prefix by simp

lemma handleDecrypt_modal_of_caught:
  "error_modal (handleDecrypt S loadImage encryptedFile keyImage pin)
     = map_option getCryptoErrorMessage (caught (handleDecrypt S loadImage encryptedFile keyImage pin))"
  unfolding handleDecrypt_def Let_def catch_block_def
  by (auto split: if_splits option.splits sum.splits prod.splits)

lemma example_wrong_pin_run:
  "decryptFile example_subtle example_ciphertext ''654321'' example_salt example_iv example_mac =
     ([ImportKey PBKDF2 [54, 53, 52, 51, 50, 49],
       DeriveKey [54, 53, 52, 51, 50, 49] example_salt 100000 SHA_256 256,
       ExportKey example_wrong_key, ImportKey HMAC example_wrong_key,
       Verify example_wrong_key SHA_256 example_mac example_ciphertext],
      Inl ''Failed to decrypt file: HMAC verification failed - data may be corrupted'')"
  by (simp add: decryptFile_eq example_simps)

lemma example_wrong_iv_run:
  "decryptFile example_subtle example_ciphertext ''123456'' example_salt example_wrong_iv example_mac =
     ([ImportKey PBKDF2 [49, 50, 51, 52, 53, 54],
       DeriveKey [49, 50, 51, 52, 53, 54] example_salt 100000 SHA_256 256,
       ExportKey example_key, ImportKey HMAC example_key,
       Verify example_key SHA_256 example_mac example_ciphertext,
       Decrypt example_key example_wrong_iv 128 example_ciphertext],
      Inl ''Failed to decrypt file: Decryption failed - incorrect PIN or corrupted data'')"
  by (simp add: decryptFile_eq example_simps example_wrong_iv_def)

lemma example_extract:
  "extractDataFromImage example_canvas =
     Inr \<lparr>ex_salt = example_salt, ex_iv = example_iv, ex_keyBytes = example_key,
          ex_hmac = example_mac\<rparr>"
  "extractDataFromImage example_canvas_wrong_iv =
     Inr \<lparr>ex_salt = example_salt, ex_iv = example_wrong_iv, ex_keyBytes = example_key,
          ex_hmac = example_mac\<rparr>"
  unfolding example_canvas_def example_canvas_wrong_iv_def
  by (rule extract_after_embed[where pixelCount = 256, THEN conjunct2];
      simp add: example_defs example_cover_def example_wrong_iv_def stego_sizes minPixels_256)+

lemma example_inputs_valid:
  "all_valid (validateDecryptionInputs (Some example_encrypted_file) (Some example_key_image) ''654321'')"
  "all_valid (validateDecryptionInputs (Some example_encrypted_file) (Some example_key_image) ''123456'')"
  by (simp_all add: validateDecryptionInputs_def validateEncryptedFile_def validateKeyImage_def
        validatePIN_def push_error_def example_encrypted_file_def example_key_image_def
        file_size_def endsWith_def startsWith_def is_digit_def weakPatterns_def Let_def
        example_defs)

lemma handleDecrypt_after_extraction:
  assumes "all_valid (validateDecryptionInputs (Some ef) (Some ki) pin)"
    and "loadImage ki = Inr canvas" "extractDataFromImage canvas = Inr x"
  shows "handleDecrypt S loadImage (Some ef) (Some ki) pin =
           (case decryptFile S (file_data ef) pin (ex_salt x) (ex_iv x) (ex_hmac x) of
              (c1, Inl e) \<Rightarrow> catch_block c1 e (Some (ex_keyBytes x))
            | (c1, Inr decryptedBlob) \<Rightarrow>
                \<lparr>calls = c1, caught = None, error_modal = None,
                 keyBytes_at_exit = Some (clearSensitiveData (ex_keyBytes x)),
                 produced = Some decryptedBlob\<rparr>)"
  using assms by (simp add: handleDecrypt_def Let_def)

lemma example_handleDecrypt_wrong_pin:
  "handleDecrypt example_subtle example_loadImage
       (Some example_encrypted_file) (Some example_key_image) ''654321'' =
     catch_block
       [ImportKey PBKDF2 [54, 53, 52, 51, 50, 49],
        DeriveKey [54, 53, 52, 51, 50, 49] example_salt 100000 SHA_256 256,
        ExportKey example_wrong_key, ImportKey HMAC example_wrong_key,
        Verify example_wrong_key SHA_256 example_mac example_ciphertext]
       ''Failed to decrypt file: HMAC verification failed - data may be corrupted''
       (Some example_key)"
  by (subst handleDecrypt_after_extraction[OF example_inputs_valid(1) example_loadImage_def example_extract(1)])
     (simp add: example_encrypted_file_def example_wrong_pin_run)

lemma example_handleDecrypt_wrong_iv:
  "handleDecrypt example_subtle example_loadImage_wrong_iv
       (Some example_encrypted_file) (Some example_key_image) ''123456'' =
     catch_block
       [ImportKey PBKDF2 [49, 50, 51, 52, 53, 54],
        DeriveKey [49, 50, 51, 52, 53, 54] example_salt 100000 SHA_256 256,
        ExportKey example_key, ImportKey HMAC example_key,
        Verify example_key SHA_256 example_mac example_ciphertext,
        Decrypt example_key example_wrong_iv 128 example_ciphertext]
       ''Failed to decrypt file: Decryption failed - incorrect PIN or corrupted data''
       (Some example_key)"
  by (subst handleDecrypt_after_extraction[OF example_inputs_valid(2) example_loadImage_wrong_iv_def example_extract(2)])
     (simp add: example_encrypted_file_def example_wrong_iv_run)

text \<open>
  Claim C8, as stated, fails at the boundary of \<open>decryptFile\<close>: a wrong pin (the MAC
  check fails) and a key image whose iv was altered (the MAC check passes, the AES-GCM tag
  does not verify) throw errors with different messages, so the cause does cross that
  boundary. What holds is the claim one level up, for what the user is shown. Every error
  that \<open>decryptFile\<close> throws is ``Failed to decrypt file: '' followed by the text of its
  cause: one of the three texts of the cryptographic causes (key derivation, MAC
  mismatch, AEAD tag mismatch), the error of reading the blob, or what the progress
  callback threw. \<open>getCryptoErrorMessage\<close> turns every such error into ``Decryption
  failed - incorrect PIN or corrupted files'', unless the text of the cause contains
  ``secure context'' or ``not supported'' (in any case of the letters), and none of the
  three cryptographic texts does. When the blob is read and the callback does not throw,
  the three cryptographic causes are the only ones, each with its own text. So whenever
  \<open>handleDecrypt\<close> catches one of these three errors, whatever the cause, the error
  modal shows the same text; the message with the cause goes to the console only.
\<close>

theorem decrypt_failures_shown_alike:
  "(\<forall>e. snd (decryptFile_io S arrayBuffer pin salt iv mac progressCallback) = Inl e \<longrightarrow>
       (\<exists>cause. e = ''Failed to decrypt file: '' @ cause
          \<and> (cause \<in> {''Failed to derive encryption key from PIN'',
                        ''HMAC verification failed - data may be corrupted'',
                        ''Decryption failed - incorrect PIN or corrupted data''}
              \<or> arrayBuffer = Inl cause
              \<or> (\<exists>percent \<in> {5, 15, 30, 50, 90, 100}.
                    notify progressCallback percent = Some cause))
          \<and> getCryptoErrorMessage e =
               (if string_includes (toLowerCase cause) ''secure context''
                then ''This app requires HTTPS. Please access via https:// or localhost''
                else if string_includes (toLowerCase cause) ''not supported''
                then ''Your browser does not support the required encryption features''
                else ''Decryption failed - incorrect PIN or corrupted files'')))
   \<and> (\<forall>cause \<in> {''Failed to derive encryption key from PIN'',
                   ''HMAC verification failed - data may be corrupted'',
                   ''Decryption failed - incorrect PIN or corrupted data''}.
         getCryptoErrorMessage (''Failed to decrypt file: '' @ cause)
           = ''Decryption failed - incorrect PIN or corrupted files'')
   \<and> (arrayBuffer = Inr c
        \<and> (\<forall>percent \<in> {5, 15, 30, 50, 90, 100}. notify progressCallback percent = None) \<longrightarrow>
        snd (decryptFile_io S arrayBuffer pin salt iv mac progressCallback) =
          (case pbkdf2_deriveKey S (TextEncoder_encode pin) salt 100000 SHA_256 256 of
             None \<Rightarrow> Inl ''Failed to decrypt file: Failed to derive encryption key from PIN''
           | Some key \<Rightarrow>
               if hmac_verify S key SHA_256 mac c = Some True
               then (case aes_gcm_decrypt S key iv 128 c of
                       None \<Rightarrow> Inl ''Failed to decrypt file: Decryption failed - incorrect PIN or corrupted data''
                     | Some plain \<Rightarrow> Inr plain)
               else Inl ''Failed to decrypt file: HMAC verification failed - data may be corrupted''))
   \<and> (\<forall>cause \<in> {''Failed to derive encryption key from PIN'',
                   ''HMAC verification failed - data may be corrupted'',
                   ''Decryption failed - incorrect PIN or corrupted data''}.
         caught (handleDecrypt S' loadImage encryptedFile keyImage pin')
           = Some (''Failed to decrypt file: '' @ cause) \<longrightarrow>
         error_modal (handleDecrypt S' loadImage encryptedFile keyImage pin')
           = Some ''Decryption failed - incorrect PIN or corrupted files'')"
proof -
  have 1: "\<exists>cause. e = ''Failed to decrypt file: '' @ cause
          \<and> (cause \<in> {''Failed to derive encryption key from PIN'',
                        ''HMAC verification failed - data may be corrupted'',
                        ''Decryption failed - incorrect PIN or corrupted data''}
              \<or> arrayBuffer = Inl cause
              \<or> (\<exists>percent \<in> {5, 15, 30, 50, 90, 100}.
                    notify progressCallback percent = Some cause))
          \<and> getCryptoErrorMessage e =
               (if string_includes (toLowerCase cause) ''secure context''
                then ''This app requires HTTPS. Please access via https:// or localhost''
                else if string_includes (toLowerCase cause) ''not supported''
                then ''Your browser does not support the required encryption features''
                else ''Decryption failed - incorrect PIN or corrupted files'')"
    if "snd (decryptFile_io S arrayBuffer pin salt iv mac progressCallback) = Inl e" for e
  proof -
    from decryptFile_io_errors[OF that] obtain cause where
      c: "e = ''Failed to decrypt file: '' @ cause"
      and o: "cause \<in> {''Failed to derive encryption key from PIN'',
                        ''HMAC verification failed - data may be corrupted'',
                        ''Decryption failed - incorrect PIN or corrupted data''}
              \<or> arrayBuffer = Inl cause
              \<or> (\<exists>percent \<in> {5, 15, 30, 50, 90, 100}.
                    notify progressCallback percent = Some cause)"
      by blast
    show ?thesis
      using o unfolding c shown_for_decryptFile_error by blast
  qed
  have 2: "\<forall>cause \<in> {''Failed to derive encryption key from PIN'',
                   ''HMAC verification failed - data may be corrupted'',
                   ''Decryption failed - incorrect PIN or corrupted data''}.
         getCryptoErrorMessage (''Failed to decrypt file: '' @ cause)
           = ''Decryption failed - incorrect PIN or corrupted files''"
    using shown_for_decrypt_errors by simp
  have 3: "snd (decryptFile_io S arrayBuffer pin salt iv mac progressCallback) =
          (case pbkdf2_deriveKey S (TextEncoder_encode pin) salt 100000 SHA_256 256 of
             None \<Rightarrow> Inl ''Failed to decrypt file: Failed to derive encryption key from PIN''
           | Some key \<Rightarrow>
               if hmac_verify S key SHA_256 mac c = Some True
               then (case aes_gcm_decrypt S key iv 128 c of
                       None \<Rightarrow> Inl ''Failed to decrypt file: Decryption failed - incorrect PIN or corrupted data''
                     | Some plain \<Rightarrow> Inr plain)
               else Inl ''Failed to decrypt file: HMAC verification failed - data may be corrupted'')"
    if "arrayBuffer = Inr c
        \<and> (\<forall>percent \<in> {5, 15, 30, 50, 90, 100}. notify progressCallback percent = None)"
  proof -
    have "decryptFile_io S arrayBuffer pin salt iv mac progressCallback
            = decryptFile S c pin salt iv mac"
      using that decryptFile_io_quiet by blast
    then show ?thesis
      unfolding decryptFile_cases Let_def deriveKeyFromPIN_result
      by (simp add: PBKDF2_ITERATIONS_def KEY_LENGTH_def split: option.splits)
  qed
  have 4: "\<forall>cause \<in> {''Failed to derive encryption key from PIN'',
                   ''HMAC verification failed - data may be corrupted'',
                   ''Decryption failed - incorrect PIN or corrupted data''}.
         caught (handleDecrypt S' loadImage encryptedFile keyImage pin')
           = Some (''Failed to decrypt file: '' @ cause) \<longrightarrow>
         error_modal (handleDecrypt S' loadImage encryptedFile keyImage pin')
           = Some ''Decryption failed - incorrect PIN or corrupted files''"
    unfolding handleDecrypt_modal_of_caught using shown_for_decrypt_errors by simp
  show ?thesis using 1 2 3 4 by blast
qed

theorem decrypt_failures_shown_alike_witness:
  "snd (decryptFile_io example_subtle (Inr example_ciphertext) ''654321'' example_salt example_iv
          example_mac None)
     = Inl ''Failed to decrypt file: HMAC verification failed - data may be corrupted''
   \<and> snd (decryptFile_io example_subtle (Inr example_ciphertext) ''123456'' example_salt
            example_wrong_iv example_mac None)
     = Inl ''Failed to decrypt file: Decryption failed - incorrect PIN or corrupted data''
   \<and> getCryptoErrorMessage ''Failed to decrypt file: HMAC verification failed - data may be corrupted''
     = ''Decryption failed - incorrect PIN or corrupted files''
   \<and> getCryptoErrorMessage ''Failed to decrypt file: Decryption failed - incorrect PIN or corrupted data''
     = ''Decryption failed - incorrect PIN or corrupted files''
   \<and> getCryptoErrorMessage ''Failed to decrypt file: The operation is not supported.''
     = ''Your browser does not support the required encryption features''
   \<and> error_modal (handleDecrypt example_subtle example_loadImage
         (Some example_encrypted_file) (Some example_key_image) ''654321'')
       = Some ''Decryption failed - incorrect PIN or corrupted files''
   \<and> error_modal (handleDecrypt example_subtle example_loadImage_wrong_iv
         (Some example_encrypted_file) (Some example_key_image) ''123456'')
       = Some ''Decryption failed - incorrect PIN or corrupted files''"
proof -
  note pin = decrypt_failures_shown_alike[of example_subtle "Inr example_ciphertext" "''654321''"
      example_salt example_iv example_mac None example_ciphertext
      example_subtle example_loadImage "Some example_encrypted_file"
      "Some example_key_image" "''654321''"]
  note iv = decrypt_failures_shown_alike[of example_subtle "Inr example_ciphertext" "''123456''"
      example_salt example_wrong_iv example_mac None example_ciphertext
      example_subtle example_loadImage_wrong_iv "Some example_encrypted_file"
      "Some example_key_image" "''123456''"]
  note blob = decrypt_failures_shown_alike[of example_subtle "Inl ''The operation is not supported.''"
      "''123456''" example_salt example_iv example_mac None example_ciphertext
      example_subtle example_loadImage "Some example_encrypted_file"
      "Some example_key_image" "''654321''"]
  have quiet: "\<forall>percent \<in> {5, 15, 30, 50, 90, 100 :: nat}. notify None percent = None"
    by (simp add: notify_def)
  have k: "pbkdf2_deriveKey example_subtle (TextEncoder_encode ''654321'') example_salt 100000 SHA_256 256
             = Some example_wrong_key"
    "pbkdf2_deriveKey example_subtle (TextEncoder_encode ''123456'') example_salt 100000 SHA_256 256
             = Some example_key"
    using example_derive by (simp_all add: deriveKeyFromPIN_result PBKDF2_ITERATIONS_def KEY_LENGTH_def
                                split: option.splits)
  have v: "hmac_verify example_subtle example_key SHA_256 example_mac example_ciphertext = Some True"
    "hmac_verify example_subtle example_wrong_key SHA_256 example_mac example_ciphertext \<noteq> Some True"
    by (simp_all add: example_verify)
  have a: "aes_gcm_decrypt example_subtle example_key example_wrong_iv 128 example_ciphertext = None"
    by (simp add: example_simps example_wrong_iv_def)
  have 1: "snd (decryptFile_io example_subtle (Inr example_ciphertext) ''654321'' example_salt example_iv
          example_mac None)
     = Inl ''Failed to decrypt file: HMAC verification failed - data may be corrupted''"
    using pin quiet k(1) v(2) by simp
  have 2: "snd (decryptFile_io example_subtle (Inr example_ciphertext) ''123456'' example_salt
            example_wrong_iv example_mac None)
     = Inl ''Failed to decrypt file: Decryption failed - incorrect PIN or corrupted data''"
    using iv quiet k(2) v(1) a by simp
  have 3: "getCryptoErrorMessage ''Failed to decrypt file: HMAC verification failed - data may be corrupted''
     = ''Decryption failed - incorrect PIN or corrupted files''"
    "getCryptoErrorMessage ''Failed to decrypt file: Decryption failed - incorrect PIN or corrupted data''
     = ''Decryption failed - incorrect PIN or corrupted files''"
    using pin by simp_all
  have "snd (decryptFile_io example_subtle (Inl ''The operation is not supported.'') ''123456''
               example_salt example_iv example_mac None)
          = Inl ''Failed to decrypt file: The operation is not supported.''"
    by (simp add: decryptFile_io_def notify_def example_simps)
  with blob have "\<exists>cause. ''Failed to decrypt file: The operation is not supported.''
                     = ''Failed to decrypt file: '' @ cause
          \<and> getCryptoErrorMessage ''Failed to decrypt file: The operation is not supported.'' =
               (if string_includes (toLowerCase cause) ''secure context''
                then ''This app requires HTTPS. Please access via https:// or localhost''
                else if string_includes (toLowerCase cause) ''not supported''
                then ''Your browser does not support the required encryption features''
                else ''Decryption failed - incorrect PIN or corrupted files'')"
    by blast
  then have 4: "getCryptoErrorMessage ''Failed to decrypt file: The operation is not supported.''
     = ''Your browser does not support the required encryption features''"
    by (auto simp: toLowerCase_def lower_char_def char_of_def bit_Suc_0_iff)
  have 5: "error_modal (handleDecrypt example_subtle example_loadImage
         (Some example_encrypted_file) (Some example_key_image) ''654321'')
       = Some ''Decryption failed - incorrect PIN or corrupted files''"
    using pin by (simp add: example_handleDecrypt_wrong_pin catch_block_def)
  have 6: "error_modal (handleDecrypt example_subtle example_loadImage_wrong_iv
         (Some example_encrypted_file) (Some example_key_image) ''123456'')
       = Some ''Decryption failed - incorrect PIN or corrupted files''"
    using iv by (simp add: example_handleDecrypt_wrong_iv catch_block_def)
  show ?thesis using 1 2 3 4 5 6 by simp
qed

theorem distinct_causes_counterexample:
  "snd (decryptFile example_subtle example_ciphertext ''654321'' example_salt example_iv example_mac)
     = Inl ''Failed to decrypt file: HMAC verification failed - data may be corrupted''
   \<and> snd (decryptFile example_subtle example_ciphertext ''123456'' example_salt example_wrong_iv example_mac)
     = Inl ''Failed to decrypt file: Decryption failed - incorrect PIN or corrupted data''
   \<and> snd (decryptFile example_subtle example_ciphertext ''654321'' example_salt example_iv example_mac)
     \<noteq> snd (decryptFile example_subtle example_ciphertext ''123456'' example_salt example_wrong_iv example_mac)"
  by (simp add: example_wrong_pin_run example_wrong_iv_run)

lemma example_handleDecrypt_ok:
  "handleDecrypt example_subtle example_loadImage
       (Some example_encrypted_file) (Some example_key_image) ''123456'' =
     \<lparr>calls =
        [ImportKey PBKDF2 [49, 50, 51, 52, 53, 54],
         DeriveKey [49, 50, 51, 52, 53, 54] example_salt 100000 SHA_256 256,
         ExportKey example_key, ImportKey HMAC example_key,
         Verify example_key SHA_256 example_mac example_ciphertext,
         Decrypt example_key example_iv 128 example_ciphertext],
      caught = None, error_modal = None,
      keyBytes_at_exit = Some (replicate 32 0), produced = Some [1, 2, 3]\<rparr>"
  by (subst handleDecrypt_after_extraction[OF example_inputs_valid(2) example_loadImage_def example_extract(1)])
     (simp add: example_encrypted_file_def decryptFile_eq example_simps clearSensitiveData_def)

lemma handleDecrypt_success_clears:
  assumes "produced (handleDecrypt S loadImage encryptedFile keyImage pin) = Some blob"
  shows "\<exists>n. keyBytes_at_exit (handleDecrypt S loadImage encryptedFile keyImage pin)
               = Some (replicate n 0)"
  using assms unfolding handleDecrypt_def Let_def catch_block_def clearSensitiveData_def
  by (auto split: if_splits option.splits sum.splits prod.splits)

lemma handleEncrypt_success_clears:
  assumes "produced (handleEncrypt S generated toBlob salt iv file pin) = Some out"
  shows "\<exists>n. keyBytes_at_exit (handleEncrypt S generated toBlob salt iv file pin)
               = Some (replicate n 0)"
  using assms unfolding handleEncrypt_def Let_def catch_block_def clearSensitiveData_def
  by (auto split: if_splits option.splits sum.splits prod.splits)

lemma handleDecrypt_failure_keeps:
  assumes "all_valid (validateDecryptionInputs (Some ef) (Some ki) pin)"
    and "loadImage ki = Inr canvas" "extractDataFromImage canvas = Inr x"
    and "snd (decryptFile S (file_data ef) pin (ex_salt x) (ex_iv x) (ex_hmac x)) = Inl e"
  shows "keyBytes_at_exit (handleDecrypt S loadImage (Some ef) (Some ki) pin)
           = Some (ex_keyBytes x)"
  using assms(4)
  unfolding handleDecrypt_after_extraction[where S = S and loadImage = loadImage, OF assms(1-3)]
  by (auto simp: catch_block_def split: prod.splits sum.splits)

lemma example_key_not_zero: "example_key \<noteq> clearSensitiveData example_key"
proof
  assume "example_key = clearSensitiveData example_key"
  then have "example_key ! 0 = clearSensitiveData example_key ! 0" by simp
  then show False by (simp add: example_key_def clearSensitiveData_def)
qed

lemma example_encryptFile_run:
  "encryptFile example_subtle example_salt example_iv [1, 2, 3] ''123456'' =
     ([ImportKey PBKDF2 [49, 50, 51, 52, 53, 54],
       DeriveKey [49, 50, 51, 52, 53, 54] example_salt 100000 SHA_256 256,
       Encrypt example_key example_iv 128 [1, 2, 3],
       ExportKey example_key, ImportKey HMAC example_key,
       Sign example_key SHA_256 example_ciphertext],
      Inr \<lparr>encrypted = example_ciphertext, enc_salt = example_salt, enc_iv = example_iv,
           enc_key = example_key, enc_hmac = example_mac\<rparr>)"
  by (simp add: encryptFile_def example_simps)

lemma example_encrypt_inputs_valid:
  "all_valid (validateEncryptionInputs (Some example_file) ''123456'')"
  by (simp add: validateEncryptionInputs_def validateEncryptionFile_def validatePIN_def
        push_error_def example_file_def file_size_def is_digit_def weakPatterns_def Let_def)

lemma example_embed_succeeds:
  "thrown (embedDataInImage example_cover example_salt example_iv example_mac example_key)
     = None"
  by (rule extract_after_embed[where pixelCount = 256, THEN conjunct1];
      simp add: example_defs example_cover_def stego_sizes minPixels_256)

lemma example_handleEncrypt_toBlob_fails:
  "handleEncrypt example_subtle (Inr example_cover) example_toBlob_failing
       example_salt example_iv (Some example_file) ''123456'' =
     catch_block
       [ImportKey PBKDF2 [49, 50, 51, 52, 53, 54],
        DeriveKey [49, 50, 51, 52, 53, 54] example_salt 100000 SHA_256 256,
        Encrypt example_key example_iv 128 [1, 2, 3],
        ExportKey example_key, ImportKey HMAC example_key,
        Sign example_key SHA_256 example_ciphertext,
        ExportKey example_key]
       ''Failed to create blob from canvas'' (Some example_key)"
  using example_encrypt_inputs_valid example_embed_succeeds
  by (simp add: handleEncrypt_def Let_def example_file_def example_encryptFile_run exportKey_def
        example_toBlob_failing_def)

lemma example_handleEncrypt_ok:
  "handleEncrypt example_subtle (Inr example_cover) example_toBlob
       example_salt example_iv (Some example_file) ''123456'' =
     \<lparr>calls =
        [ImportKey PBKDF2 [49, 50, 51, 52, 53, 54],
         DeriveKey [49, 50, 51, 52, 53, 54] example_salt 100000 SHA_256 256,
         Encrypt example_key example_iv 128 [1, 2, 3],
         ExportKey example_key, ImportKey HMAC example_key,
         Sign example_key SHA_256 example_ciphertext,
         ExportKey example_key],
      caught = None, error_modal = None,
      keyBytes_at_exit = Some (replicate 32 0),
      produced = Some (example_ciphertext, example_canvas)\<rparr>"
  using example_encrypt_inputs_valid example_embed_succeeds
  by (simp add: handleEncrypt_def Let_def example_file_def example_encryptFile_run exportKey_def
        example_toBlob_def example_canvas_def clearSensitiveData_def)
     (simp add: example_key_def)

section \<open>The round trip through the canvas\<close>

lemma nth_concat_replicate:
  assumes "j < n * length xs"
  shows "concat (replicate n xs) ! j = xs ! (j mod length xs)"
  using assms
proof (induction n arbitrary: j)
  case 0
  then show ?case by simp
next
  case (Suc n)
  show ?case
  proof (cases "j < length xs")
    case True
    then show ?thesis by (simp add: nth_append)
  next
    case False
    then have "j - length xs < n * length xs" using Suc.prems by simp
    from Suc.IH[OF this] False show ?thesis by (simp add: nth_append le_mod_geq)
  qed
qed

lemma example_wave_cover_length: "length example_wave_cover = 1024"
  by (simp add: example_wave_cover_def length_concat sum_list_replicate)

lemma example_wave_cover_alpha: "example_wave_cover ! 39 = 0"
  unfolding example_wave_cover_def by (subst nth_concat_replicate) simp_all

lemma example_payload:
  "assemble_dataToEmbed example_salt example_iv example_mac example_key
     = Inr ([0, 0, 0, 92] @ example_salt @ example_iv @ example_key @ example_mac)"
  by (rule assemble_layout) (simp_all add: example_defs stego_sizes)

lemma example_wave_fits:
  "\<not> too_small ([0, 0, 0, 92] @ example_salt @ example_iv @ example_key @ example_mac)
       example_wave_cover"
  by (simp add: too_small_iff example_wave_cover_length example_defs)

lemma take_4: "4 \<le> length xs \<Longrightarrow> take 4 xs = [xs ! 0, xs ! 1, xs ! 2, xs ! 3]"
  by (auto simp: list_eq_iff_nth_eq nth_Cons' less_Suc_eq numeral_eq_Suc)

lemma example_wave_extract:
  "extractDataFromImage example_wave_canvas =
     Inl ''Failed to extract data from image: Invalid data length - image may not contain valid encryption data''"
proof -
  let ?d = "[0, 0, 0, 92] @ example_salt @ example_iv @ example_key @ example_mac"
  let ?px = "fst (embed_pixels ?d 0 (example_wave_cover, 0, 0))"
  let ?ab = "read_allBytes example_wave_canvas"
  note len = example_wave_cover_length
  have canvas: "example_wave_canvas = putImageData ?px"
    unfolding example_wave_canvas_def embed_run_fits[OF example_payload example_wave_fits] by simp
  have "?px ! (4 * 9 + 3) = example_wave_cover ! (4 * 9 + 3)"
    by (rule embedded_alpha) (simp add: len)
  then have alpha: "?px ! (4 * (36 div 4) + 3) = 0" by (simp add: example_wave_cover_alpha)
  have zero: "putImageData ?px ! 36 = 0"
    using _ _ alpha by (rule putImageData_transparent) (simp_all add: embedded_length len)
  have r: "read_allBytes p = fst (extract_pixels p 96 0 (replicate 96 0, 0, 0))" for p
    by (simp add: read_allBytes_def Let_def stego_sizes)
  have "bit (?ab ! 3) 4 \<longleftrightarrow> bit (elem (putImageData ?px) (channel_index (8 * 3 + (7 - 4)))) 0"
    unfolding canvas r by (rule extracted_bit) simp_all
  then have nb: "\<not> bit (?ab ! 3) 4"
    using zero by (simp add: channel_index_def elem_def length_putImageData embedded_length len)
  have "?ab ! 3 \<noteq> 92"
  proof
    assume "?ab ! 3 = 92"
    then have "bit (?ab ! 3) 4" by simp
    with nb show False by simp
  qed
  then have header: "[?ab ! 0, ?ab ! 1, ?ab ! 2, ?ab ! 3] \<noteq> [0, 0, 0, 92]" by simp
  have t4: "take 4 ?ab = [?ab ! 0, ?ab ! 1, ?ab ! 2, ?ab ! 3]"
    by (rule take_4) (simp add: length_read_allBytes)
  have "bytesToNumber (take 4 ?ab) \<noteq> 92"
    unfolding t4 bytesToNumber_92 using header .
  then show ?thesis
    by (simp add: extractDataFromImage_def Let_def slice_bytes_def stego_sizes)
qed

lemma example_wave_array:
  "read_allBytes (pixels_after (embedDataInImage example_wave_cover
       example_salt example_iv example_mac example_key))
     = numberToBytes 92 @ example_salt @ example_iv @ example_key @ example_mac"
  unfolding embed_run_fits[OF example_payload example_wave_fits]
  using read_allBytes_array[OF _ example_wave_fits]
  by (simp add: numberToBytes_92 example_defs)

lemma example_handleEncrypt_wave:
  "handleEncrypt example_subtle (Inr example_wave_cover) example_toBlob
       example_salt example_iv (Some example_file) ''123456'' =
     \<lparr>calls =
        [ImportKey PBKDF2 [49, 50, 51, 52, 53, 54],
         DeriveKey [49, 50, 51, 52, 53, 54] example_salt 100000 SHA_256 256,
         Encrypt example_key example_iv 128 [1, 2, 3],
         ExportKey example_key, ImportKey HMAC example_key,
         Sign example_key SHA_256 example_ciphertext,
         ExportKey example_key],
      caught = None, error_modal = None,
      keyBytes_at_exit = Some (replicate 32 0),
      produced = Some (example_ciphertext, example_wave_canvas)\<rparr>"
proof -
  have "thrown (embedDataInImage example_wave_cover example_salt example_iv example_mac example_key)
          = None"
    unfolding embed_run_fits[OF example_payload example_wave_fits] by simp
  then show ?thesis
    using example_encrypt_inputs_valid
    by (simp add: handleEncrypt_def Let_def example_file_def example_encryptFile_run exportKey_def
          example_toBlob_def example_wave_canvas_def clearSensitiveData_def)
       (simp add: example_key_def)
qed

lemma example_handleDecrypt_wave:
  "handleDecrypt example_subtle example_loadImage_wave
       (Some example_encrypted_file) (Some example_key_image) ''123456'' =
     catch_block []
       ''Failed to extract data from image: Invalid data length - image may not contain valid encryption data''
       None"
  using example_inputs_valid(2)
  by (simp add: handleDecrypt_def Let_def example_loadImage_wave_def example_wave_extract)

text \<open>
  Claim C2 holds for the canvases whose first 256 pixels are opaque (lemma
  \<open>extract_after_embed\<close>) and fails on canvases with transparent pixels among them,
  covers of the application's own generator included. Take the cover that
  \<^verbatim>\<open>generateWavePattern\<close> leaves, in which every second pixel of row 0 is transparent,
  and the payload of the example. Embedding succeeds and the pixel array holds the 96
  bytes of the payload. \<^verbatim>\<open>putImageData\<close> then stores the transparent pixels without
  their colour bytes, so the bits written there are gone from the canvas: bit 27 of the
  payload, a 1 of the header, is in pixel 9, which reads back as zero. Extraction from
  the canvas decodes a header other than 92 and throws. The same happens in the
  application: \<open>handleEncrypt\<close> on this cover succeeds and hands out the canvas as the
  key image, and \<open>handleDecrypt\<close> on that key image with the right pin fails in the
  extraction.
\<close>

theorem round_trip_lost_on_transparent_pixels:
  "thrown (embedDataInImage example_wave_cover example_salt example_iv example_mac example_key)
     = None
   \<and> read_allBytes (pixels_after (embedDataInImage example_wave_cover
         example_salt example_iv example_mac example_key))
       = numberToBytes 92 @ example_salt @ example_iv @ example_key @ example_mac
   \<and> extractDataFromImage (canvas_after (embedDataInImage example_wave_cover
         example_salt example_iv example_mac example_key))
       = Inl ''Failed to extract data from image: Invalid data length - image may not contain valid encryption data''
   \<and> produced (handleEncrypt example_subtle (Inr example_wave_cover) example_toBlob
         example_salt example_iv (Some example_file) ''123456'')
       = Some (example_ciphertext, example_wave_canvas)
   \<and> handleDecrypt example_subtle example_loadImage_wave
         (Some example_encrypted_file) (Some example_key_image) ''123456''
       = catch_block []
           ''Failed to extract data from image: Invalid data length - image may not contain valid encryption data''
           None"
proof -
  have "thrown (embedDataInImage example_wave_cover example_salt example_iv example_mac example_key)
          = None"
    unfolding embed_run_fits[OF example_payload example_wave_fits] by simp
  moreover have "extractDataFromImage (canvas_after (embedDataInImage example_wave_cover
         example_salt example_iv example_mac example_key))
       = Inl ''Failed to extract data from image: Invalid data length - image may not contain valid encryption data''"
    using example_wave_extract unfolding example_wave_canvas_def .
  ultimately show ?thesis
    using example_wave_array example_handleDecrypt_wave
    by (simp add: example_handleEncrypt_wave)
qed

text \<open>
  Claim C10 holds on the paths that succeed (the two lemmas on success above) and fails
  on the paths that throw after the key buffer exists. \<open>handleDecrypt\<close> on the example's
  encrypted file and key image with the wrong pin \<open>654321\<close>: \<open>decryptFile\<close> throws the
  HMAC error, the \<^verbatim>\<open>catch\<close> block does not call \<open>clearSensitiveData\<close>, and the
  extracted key bytes are still in the buffer when the handler returns. With the right
  pin the same buffer is zero-filled at exit. \<open>handleEncrypt\<close> has the same shape: when
  the PNG encoder fails after the key was exported, the exported key bytes stay in the
  buffer; when it succeeds they are zero-filled.
\<close>

theorem key_bytes_left_after_failure:
  "keyBytes_at_exit (handleDecrypt example_subtle example_loadImage
       (Some example_encrypted_file) (Some example_key_image) ''654321'') = Some example_key
   \<and> caught (handleDecrypt example_subtle example_loadImage
       (Some example_encrypted_file) (Some example_key_image) ''654321'')
       = Some ''Failed to decrypt file: HMAC verification failed - data may be corrupted''
   \<and> example_key \<noteq> clearSensitiveData example_key
   \<and> keyBytes_at_exit (handleDecrypt example_subtle example_loadImage
       (Some example_encrypted_file) (Some example_key_image) ''123456'')
       = Some (clearSensitiveData example_key)
   \<and> keyBytes_at_exit (handleEncrypt example_subtle (Inr example_cover)
       example_toBlob_failing example_salt example_iv (Some example_file) ''123456'')
       = Some example_key
   \<and> keyBytes_at_exit (handleEncrypt example_subtle (Inr example_cover)
       example_toBlob example_salt example_iv (Some example_file) ''123456'')
       = Some (clearSensitiveData example_key)"
  using example_key_not_zero
  by (simp add: example_handleDecrypt_wrong_pin example_handleDecrypt_ok catch_block_def
        example_handleEncrypt_toBlob_fails example_handleEncrypt_ok)
     (simp add: clearSensitiveData_def example_key_def)

lemma validatePIN_valid_iff:
  "valid (validatePIN pin) \<longleftrightarrow> length pin = 6 \<and> (\<forall>c \<in> set pin. c \<in> set ''0123456789'')"
  by (auto simp: validatePIN_def is_digit_def list_all_iff)

lemma validatePIN_error:
  assumes "\<not> valid (validatePIN pin)"
  shows "error (validatePIN pin) \<in> {Some ''PIN is required'', Some ''PIN must be exactly 6 digits'',
                                     Some ''PIN must contain only numbers''}"
  using assms by (auto simp: validatePIN_def split: if_splits)

lemma invalid_pin_rejected:
  assumes "\<not> valid (validatePIN pin)"
  shows "\<not> all_valid (validateEncryptionInputs file pin)"
    and "\<not> all_valid (validateDecryptionInputs encryptedFile keyImage pin)"
  using assms by (simp_all add: validateEncryptionInputs_def validateDecryptionInputs_def
                    push_error_def Let_def)

lemma example_short_pin: "TextEncoder_encode ''12345'' = [49, 50, 51, 52, 53]"
  by (simp add: TextEncoder_encode_def)

text \<open>
  Claim C9, as stated, fails: \<open>deriveKeyFromPIN\<close> does not look at the form of the pin
  and derives a key for the 5-digit pin \<open>12345\<close>. The check is made one level up, and
  what holds is this. \<open>validatePIN\<close> accepts a pin if and only if it is exactly 6 ASCII
  decimal digits. \<open>handleEncrypt\<close> and \<open>handleDecrypt\<close> run it first and, for every
  other pin, throw the validation error (``PIN is required'', ``PIN must be exactly 6
  digits'' or ``PIN must contain only numbers'' among the messages), make no call on
  \<^verbatim>\<open>crypto.subtle\<close> and produce nothing, so no key material is computed.
  \<open>deriveKeyFromPIN\<close> itself, for every pin and salt, imports the UTF-8 bytes of the pin
  and asks PBKDF2 with SHA-256 and 100000 iterations for a 256-bit key; it throws only
  when that request is rejected.
\<close>

theorem pin_validation_and_derivation:
  "(valid (validatePIN pin) \<longleftrightarrow> length pin = 6 \<and> (\<forall>c \<in> set pin. c \<in> set ''0123456789''))
   \<and> (\<not> valid (validatePIN pin) \<longrightarrow>
        error (validatePIN pin) \<in> {Some ''PIN is required'', Some ''PIN must be exactly 6 digits'',
                                    Some ''PIN must contain only numbers''}
        \<and> handleEncrypt S generated toBlob salt iv file pin =
             catch_block [] (formatValidationErrors (errors (validateEncryptionInputs file pin))) None
        \<and> handleDecrypt S loadImage encryptedFile keyImage pin =
             catch_block []
               (formatValidationErrors (errors (validateDecryptionInputs encryptedFile keyImage pin)))
               None)
   \<and> deriveKeyFromPIN S pin salt =
        ([ImportKey PBKDF2 (TextEncoder_encode pin),
          DeriveKey (TextEncoder_encode pin) salt 100000 SHA_256 256],
         case pbkdf2_deriveKey S (TextEncoder_encode pin) salt 100000 SHA_256 256 of
           None \<Rightarrow> Inl ''Failed to derive encryption key from PIN''
         | Some key \<Rightarrow> Inr key)"
proof -
  have "handleEncrypt S generated toBlob salt iv file pin =
          catch_block [] (formatValidationErrors (errors (validateEncryptionInputs file pin))) None"
    if "\<not> valid (validatePIN pin)"
    using invalid_pin_rejected(1)[OF that] by (simp add: handleEncrypt_def Let_def)
  moreover have "handleDecrypt S loadImage encryptedFile keyImage pin =
          catch_block []
            (formatValidationErrors (errors (validateDecryptionInputs encryptedFile keyImage pin)))
            None"
    if "\<not> valid (validatePIN pin)"
    using invalid_pin_rejected(2)[OF that] by (simp add: handleDecrypt_def Let_def)
  moreover have "deriveKeyFromPIN S pin salt =
        ([ImportKey PBKDF2 (TextEncoder_encode pin),
          DeriveKey (TextEncoder_encode pin) salt 100000 SHA_256 256],
         case pbkdf2_deriveKey S (TextEncoder_encode pin) salt 100000 SHA_256 256 of
           None \<Rightarrow> Inl ''Failed to derive encryption key from PIN''
         | Some key \<Rightarrow> Inr key)"
    by (simp add: deriveKeyFromPIN_def Let_def PBKDF2_ITERATIONS_def KEY_LENGTH_def
             split: option.splits)
  ultimately show ?thesis
    using validatePIN_valid_iff validatePIN_error by blast
qed

theorem pin_validation_and_derivation_witness:
  "\<not> valid (validatePIN ''12345'') \<and> valid (validatePIN ''482913'')
   \<and> handleEncrypt example_subtle (Inr example_canvas) example_toBlob example_salt example_iv
        (Some example_file) ''12345''
      = catch_block [] ''PIN must be exactly 6 digits'' None
   \<and> handleDecrypt example_subtle example_loadImage
        (Some example_encrypted_file) (Some example_key_image) ''12345''
      = catch_block [] ''PIN must be exactly 6 digits'' None
   \<and> fst (deriveKeyFromPIN example_subtle ''482913'' example_salt) =
        [ImportKey PBKDF2 (TextEncoder_encode ''482913''),
         DeriveKey (TextEncoder_encode ''482913'') example_salt 100000 SHA_256 256]"
proof -
  have v: "\<not> valid (validatePIN ''12345'')" "valid (validatePIN ''482913'')"
    by (simp_all add: validatePIN_def is_digit_def weakPatterns_def)
  have e: "formatValidationErrors (errors (validateEncryptionInputs
             (Some example_file)
             ''12345'')) = ''PIN must be exactly 6 digits''"
    by (simp add: validateEncryptionInputs_def validateEncryptionFile_def validatePIN_def
          push_error_def file_size_def formatValidationErrors_def Let_def example_file_def)
  have d: "formatValidationErrors (errors (validateDecryptionInputs
             (Some example_encrypted_file) (Some example_key_image) ''12345''))
           = ''PIN must be exactly 6 digits''"
    by (simp add: validateDecryptionInputs_def validateEncryptedFile_def validateKeyImage_def
          validatePIN_def push_error_def example_encrypted_file_def example_key_image_def
          file_size_def endsWith_def startsWith_def formatValidationErrors_def Let_def
          example_defs)
  show ?thesis
    using v
      pin_validation_and_derivation[of "''12345''" example_subtle "Inr example_canvas"
        example_toBlob example_salt example_iv
        "Some example_file"
        example_loadImage "Some example_encrypted_file" "Some example_key_image"]
      pin_validation_and_derivation[of "''482913''" example_subtle "Inr example_canvas"
        example_toBlob example_salt example_iv
        "Some example_file"
        example_loadImage "Some example_encrypted_file" "Some example_key_image"]
    unfolding e d by simp
qed

theorem derive_without_validation_counterexample:
  "\<not> valid (validatePIN ''12345'')
   \<and> deriveKeyFromPIN example_subtle ''12345'' example_salt =
       ([ImportKey PBKDF2 [49, 50, 51, 52, 53],
         DeriveKey [49, 50, 51, 52, 53] example_salt 100000 SHA_256 256],
        Inr ([49, 50, 51, 52, 53] @ replicate 16 7 @ replicate 11 0))"
  by (simp add: validatePIN_def deriveKeyFromPIN_def example_subtle_def Let_def example_short_pin
        example_defs KEY_LENGTH_def PBKDF2_ITERATIONS_def)

end
